theory Spec2Isabelle
  imports Main "HOL-Library.Sublist"
begin

section \<open>Python values: exceptions and strings\<close>

text \<open>
  The program is \<^verbatim>\<open>src/main.py\<close>: a scraper that reads one page, extracts
  (name, link) pairs from its table rows, downloads every Google Drive link with
  \<^verbatim>\<open>gdown\<close> and writes a CSV report.

  A string is the list of the bytes of its UTF-8 encoding (a lone surrogate, which a
  Python string may hold, by the three bytes of its code point).

  An exception is its class and its message (\<^verbatim>\<open>str(e)\<close>). \<open>KeyboardInterrupt\<close> and
  \<open>SystemExit\<close> derive from \<^verbatim>\<open>BaseException\<close> only; every other class below derives from
  \<^verbatim>\<open>Exception\<close>, and those are the ones \<^verbatim>\<open>except Exception\<close> catches. Only
  \<open>RequestException\<close> (with its subclasses, \<^verbatim>\<open>HTTPError\<close> among them) is caught by
  \<^verbatim>\<open>except requests.RequestException\<close>.
\<close>

datatype exn_class =
  RequestException | IndexError | KeyError | ValueError | OSError | UnicodeEncodeError
| OtherException | KeyboardInterrupt | SystemExit

datatype exn = Exn exn_class string

fun is_request_exception :: "exn \<Rightarrow> bool" where
  "is_request_exception (Exn c msg) = (c = RequestException)"

text \<open>\<^verbatim>\<open>isinstance(e, Exception)\<close>\<close>

fun is_exception :: "exn \<Rightarrow> bool" where
  "is_exception (Exn c msg) = (c \<noteq> KeyboardInterrupt \<and> c \<noteq> SystemExit)"

fun exn_message :: "exn \<Rightarrow> string" where
  "exn_message (Exn c msg) = msg"

text \<open>\<^verbatim>\<open>sub in s\<close> on strings: \<open>sub\<close> occurs in \<open>s\<close> as a contiguous substring.\<close>

fun str_in :: "string \<Rightarrow> string \<Rightarrow> bool" where
  "str_in sub [] = (sub = [])"
| "str_in sub (c # cs) = (prefix sub (c # cs) \<or> str_in sub cs)"

text \<open>
  \<^verbatim>\<open>s.split(sep)\<close>: the pieces of \<open>s\<close> between the occurrences of \<open>sep\<close>, found from
  the left and not overlapping. \<open>cur\<close> is the piece being read. An empty separator
  raises \<^verbatim>\<open>ValueError\<close>.
\<close>

function split_from :: "string \<Rightarrow> string \<Rightarrow> string \<Rightarrow> string list" where
  "split_from sep cur [] = [cur]"
| "split_from sep cur (c # cs) =
     (if sep \<noteq> [] \<and> prefix sep (c # cs)
      then cur # split_from sep [] (drop (length sep) (c # cs))
      else split_from sep (cur @ [c]) cs)"
  by pat_completeness auto
termination
  by (relation "measure (\<lambda>(sep, cur, s). length s)") auto

definition split :: "string \<Rightarrow> string \<Rightarrow> exn + string list" where
  "split s sep =
     (if sep = [] then Inl (Exn ValueError ''empty separator'')
      else Inr (split_from sep [] s))"

text \<open>\<^verbatim>\<open>xs[i]\<close> for an index \<open>i \<ge> 0\<close>: out of range raises \<^verbatim>\<open>IndexError\<close>.\<close>

definition getitem :: "'a list \<Rightarrow> nat \<Rightarrow> exn + 'a" where
  "getitem xs i =
     (if i < length xs then Inr (xs ! i)
      else Inl (Exn IndexError ''list index out of range''))"

text \<open>
  The characters that are whitespace for \<^verbatim>\<open>str.strip\<close> and \<^verbatim>\<open>str.isspace\<close>, each by its
  encoding: U+0009 to U+000D, U+001C to U+0020, U+0085, U+00A0, U+1680, U+2000 to U+200A,
  U+2028, U+2029, U+202F, U+205F and U+3000.
\<close>

definition whitespace :: "string list" where
  "whitespace =
     [[CHR 0x09], [CHR 0x0A], [CHR 0x0B], [CHR 0x0C], [CHR 0x0D],
      [CHR 0x1C], [CHR 0x1D], [CHR 0x1E], [CHR 0x1F], [CHR 0x20],
      [CHR 0xC2, CHR 0x85], [CHR 0xC2, CHR 0xA0],
      [CHR 0xE1, CHR 0x9A, CHR 0x80],
      [CHR 0xE2, CHR 0x80, CHR 0x80], [CHR 0xE2, CHR 0x80, CHR 0x81],
      [CHR 0xE2, CHR 0x80, CHR 0x82], [CHR 0xE2, CHR 0x80, CHR 0x83],
      [CHR 0xE2, CHR 0x80, CHR 0x84], [CHR 0xE2, CHR 0x80, CHR 0x85],
      [CHR 0xE2, CHR 0x80, CHR 0x86], [CHR 0xE2, CHR 0x80, CHR 0x87],
      [CHR 0xE2, CHR 0x80, CHR 0x88], [CHR 0xE2, CHR 0x80, CHR 0x89],
      [CHR 0xE2, CHR 0x80, CHR 0x8A],
      [CHR 0xE2, CHR 0x80, CHR 0xA8], [CHR 0xE2, CHR 0x80, CHR 0xA9],
      [CHR 0xE2, CHR 0x80, CHR 0xAF],
      [CHR 0xE2, CHR 0x81, CHR 0x9F],
      [CHR 0xE3, CHR 0x80, CHR 0x80]]"

text \<open>
  Removing, from the left, characters of the list \<open>ws\<close> as long as the string starts with
  one. No encoding of a character starts another one, so on the bytes this removes whole
  characters, from either end.
\<close>

function drop_leading :: "string list \<Rightarrow> string \<Rightarrow> string" where
  "drop_leading ws s =
     (case filter (\<lambda>w. w \<noteq> [] \<and> prefix w s) ws of
        [] \<Rightarrow> s
      | w # more \<Rightarrow> drop_leading ws (drop (length w) s))"
  by pat_completeness auto
termination
proof (relation "measure (\<lambda>(ws, s). length s)")
  show "wf (measure (\<lambda>(ws, s). length s))" by simp
next
  fix ws :: "string list" and s w :: string and more
  assume "filter (\<lambda>w. w \<noteq> [] \<and> prefix w s) ws = w # more"
  then have "w \<in> set (filter (\<lambda>w. w \<noteq> [] \<and> prefix w s) ws)" by simp
  then have "w \<noteq> []" and "prefix w s" by simp_all
  then have l: "0 < length w" "length w \<le> length s" by (simp_all add: prefix_length_le)
  have "length (drop (length w) s) = length s - length w" by simp
  with l have "length (drop (length w) s) < length s" by arith
  then show "((ws, drop (length w) s), (ws, s)) \<in> measure (\<lambda>(ws, s). length s)" by simp
qed

text \<open>\<^verbatim>\<open>s.strip()\<close>: whitespace is removed at both ends.\<close>

definition strip :: "string \<Rightarrow> string" where
  "strip s = rev (drop_leading (map rev whitespace) (rev (drop_leading whitespace s)))"

text \<open>\<^verbatim>\<open>os.path.join(a, b)\<close> of \<^verbatim>\<open>posixpath\<close>: an absolute \<open>b\<close> replaces \<open>a\<close>.\<close>

definition path_join :: "string \<Rightarrow> string \<Rightarrow> string" where
  "path_join a b =
     (if prefix ''/'' b then b
      else if a = [] \<or> suffix ''/'' a then a @ b
      else a @ ''/'' @ b)"

text \<open>\<^verbatim>\<open>str(n)\<close> for a status code.\<close>

function str_of_nat :: "nat \<Rightarrow> string" where
  "str_of_nat n =
     (if n < 10 then [char_of (48 + n)]
      else str_of_nat (n div 10) @ [char_of (48 + n mod 10)])"
  by pat_completeness auto
termination
  by (relation "measure id") auto

section \<open>The parsed document (BeautifulSoup)\<close>

text \<open>
  A parsed document is a tree: a tag has a name, a dictionary of attributes (its items,
  the keys distinct) and its children in document order; a leaf is a string together with
  its class, \<^verbatim>\<open>NavigableString\<close> for text and a subclass for a CDATA section, a comment, a
  declaration, and for the text inside \<^verbatim>\<open>script\<close>, \<^verbatim>\<open>style\<close>, \<^verbatim>\<open>template\<close>, \<^verbatim>\<open>rt\<close> and
  \<^verbatim>\<open>rp\<close> tags. The \<^verbatim>\<open>BeautifulSoup\<close> object is the tag at the root.
\<close>

datatype string_class =
  NavigableString | CData | Comment | Declaration | Doctype | ProcessingInstruction
| Script | Stylesheet | TemplateString | RubyTextString | RubyParenthesisString

datatype node =
  Tag string "(string \<times> string) list" "node list"
| Str string_class string

text \<open>\<^verbatim>\<open>tag.descendants\<close>: every node below the tag, in document order.\<close>

fun descendants :: "node \<Rightarrow> node list" where
  "descendants (Tag nm ats cs) = concat (map (\<lambda>c. c # descendants c) cs)"
| "descendants (Str c s) = []"

fun is_tag :: "string \<Rightarrow> node \<Rightarrow> bool" where
  "is_tag nm (Tag n ats cs) = (n = nm)"
| "is_tag nm (Str c s) = False"

fun node_attrs :: "node \<Rightarrow> (string \<times> string) list" where
  "node_attrs (Tag n ats cs) = ats"
| "node_attrs (Str c s) = []"

text \<open>The filter of \<^verbatim>\<open>find('a', href=True)\<close>: an \<^verbatim>\<open>a\<close> tag that has the attribute.\<close>

definition a_href :: "node \<Rightarrow> bool" where
  "a_href n = (is_tag ''a'' n \<and> map_of (node_attrs n) ''href'' \<noteq> None)"

text \<open>
  The search loop behind \<^verbatim>\<open>find_all\<close> and \<^verbatim>\<open>find\<close>: it walks the generator,
  appends every match to the results and stops once a (non-zero) limit is reached.
\<close>

fun search_gen :: "(node \<Rightarrow> bool) \<Rightarrow> nat option \<Rightarrow> node list \<Rightarrow> node list \<Rightarrow> node list" where
  "search_gen m limit res [] = res"
| "search_gen m limit res (i # gen) =
     (if m i then
        (if (case limit of None \<Rightarrow> False | Some l \<Rightarrow> l \<noteq> 0 \<and> l \<le> length (res @ [i]))
         then res @ [i]
         else search_gen m limit (res @ [i]) gen)
      else search_gen m limit res gen)"

definition find_all :: "(node \<Rightarrow> bool) \<Rightarrow> node \<Rightarrow> node list" where
  "find_all m n = search_gen m None [] (descendants n)"

definition find :: "(node \<Rightarrow> bool) \<Rightarrow> node \<Rightarrow> node option" where
  "find m n = (case search_gen m (Some 1) [] (descendants n) of [] \<Rightarrow> None | r # rs \<Rightarrow> Some r)"

text \<open>\<^verbatim>\<open>tag[key]\<close>: the attribute's value, \<^verbatim>\<open>KeyError\<close> when it is missing.\<close>

definition tag_getitem :: "node \<Rightarrow> string \<Rightarrow> exn + string" where
  "tag_getitem n key =
     (case map_of (node_attrs n) key of None \<Rightarrow> Inl (Exn KeyError key) | Some v \<Rightarrow> Inr v)"

text \<open>
  \<^verbatim>\<open>tag.get_text(strip=True)\<close>: of the strings below the tag, those whose class is
  \<^verbatim>\<open>NavigableString\<close> or \<^verbatim>\<open>CData\<close> (the others are left out), each one stripped, the
  empty ones dropped, joined with nothing between them.
\<close>

fun stripped_strings :: "node list \<Rightarrow> string list" where
  "stripped_strings [] = []"
| "stripped_strings (Str c s # ds) =
     (if (c = NavigableString \<or> c = CData) \<and> strip s \<noteq> []
      then strip s # stripped_strings ds
      else stripped_strings ds)"
| "stripped_strings (Tag nm ats cs # ds) = stripped_strings ds"

definition get_text_strip :: "node \<Rightarrow> string" where
  "get_text_strip n = concat (stripped_strings (descendants n))"

section \<open>The process and the outside world\<close>

text \<open>
  Every call that reaches outside the process is an effect, appended to the trace in the
  order the calls are made. The outcome of such a call is given by the environment, as a
  function of everything the process has done before it and of the call's arguments.

  \<^verbatim>\<open>print\<close> writes a line to the standard output, which raises when it cannot take the
  line (\<^verbatim>\<open>UnicodeEncodeError\<close> for a character it cannot encode). The lines of
  \<^verbatim>\<open>GoogleDriveDownloader.download\<close> hold the name of a row, which comes from the document,
  and whether the standard output takes such a line is the environment's answer
  (\<open>stdout_write\<close>). The lines of \<^verbatim>\<open>get_pdf_links\<close>, \<^verbatim>\<open>main\<close> and \<^verbatim>\<open>save_to_csv\<close> are texts
  of the program, followed at most by the message of a library or by the fixed path of
  the report; writing them is taken to succeed.
\<close>

datatype effect =
  Print string
| HttpGet string nat
| MakeDirs string
| GdownDownload string string
| ToCsv string "string list" "string list list"
| Sleep int

record response =
  status_code :: nat
  reason :: string
  resp_url :: string
  resp_text :: string

record env =
  requests_get :: "effect list \<Rightarrow> string \<Rightarrow> nat \<Rightarrow> exn + response"
  beautiful_soup :: "string \<Rightarrow> node"
  gdown_download :: "effect list \<Rightarrow> string \<Rightarrow> string \<Rightarrow> exn option"
  os_makedirs :: "effect list \<Rightarrow> string \<Rightarrow> exn option"
  to_csv :: "effect list \<Rightarrow> string \<Rightarrow> exn option"
  stdout_write :: "effect list \<Rightarrow> string \<Rightarrow> exn option"

text \<open>
  The strategy classes of the registry. The factory object holds the dictionary
  \<^verbatim>\<open>_strategies\<close> (insertion-ordered). The state of the process is the trace, the class
  attribute \<^verbatim>\<open>DownloadStrategyFactory._instance\<close> and the store of factory objects.
\<close>

datatype strategy = GoogleDriveDownloader

record DownloadStrategyFactory =
  strategies :: "(string \<times> strategy) list"

record pystate =
  out :: "effect list"
  cls_instance :: "nat option"
  heap :: "nat \<rightharpoonup> DownloadStrategyFactory"
  next_addr :: nat

definition initial_state :: pystate where
  "initial_state = \<lparr>out = [], cls_instance = None, heap = Map.empty, next_addr = 0\<rparr>"

definition emit :: "effect \<Rightarrow> pystate \<Rightarrow> pystate" where
  "emit e s = s\<lparr>out := out s @ [e]\<rparr>"

text \<open>\<^verbatim>\<open>print(line)\<close> where the standard output may refuse the line.\<close>

definition print_line :: "env \<Rightarrow> string \<Rightarrow> pystate \<Rightarrow> pystate \<times> exn option" where
  "print_line E line s = (emit (Print line) s, stdout_write E (out s) line)"

section \<open>The result logger\<close>

text \<open>
  \<^verbatim>\<open>DownloadLogger.results\<close> is a list of dictionaries, each with the keys
  \<^verbatim>\<open>Nombre\<close> and \<^verbatim>\<open>Estado\<close> in this order.
\<close>

record DownloadLogger =
  results :: "(string \<times> string) list list"

definition DownloadLogger_init :: DownloadLogger where
  "DownloadLogger_init = \<lparr>results = []\<rparr>"

definition update :: "DownloadLogger \<Rightarrow> string \<Rightarrow> string \<Rightarrow> DownloadLogger" where
  "update self name status =
     self\<lparr>results := results self @ [[(''Nombre'', name), (''Estado'', status)]]\<rparr>"

text \<open>
  \<^verbatim>\<open>pd.DataFrame(records)\<close> for a list of dictionaries: the columns are the keys of the
  records in the order of their first appearance (none for an empty list), and every
  record is one row, with a missing value where it lacks a column.
\<close>

record dataframe =
  columns :: "string list"
  rows :: "string option list list"

fun ordered_keys :: "string list \<Rightarrow> string list \<Rightarrow> string list" where
  "ordered_keys seen [] = seen"
| "ordered_keys seen (k # ks) =
     (if k \<in> set seen then ordered_keys seen ks else ordered_keys (seen @ [k]) ks)"

definition DataFrame :: "(string \<times> string) list list \<Rightarrow> dataframe" where
  "DataFrame recs =
     (let cols = ordered_keys [] (concat (map (map fst) recs))
      in \<lparr>columns = cols, rows = map (\<lambda>r. map (map_of r) cols) recs\<rparr>)"

text \<open>
  \<^verbatim>\<open>df.to_csv(path, index=False)\<close> writes the header (the columns) and one row per
  record, a missing value as the empty field.
\<close>

definition csv_effect :: "string \<Rightarrow> dataframe \<Rightarrow> effect" where
  "csv_effect path df =
     ToCsv path (columns df) (map (map (\<lambda>v. case v of None \<Rightarrow> [] | Some x \<Rightarrow> x)) (rows df))"

definition save_to_csv :: "env \<Rightarrow> DownloadLogger \<Rightarrow> string \<Rightarrow> pystate \<Rightarrow> pystate \<times> (exn + unit)" where
  "save_to_csv E self folder s =
     (let df = DataFrame (results self);
          csv_path = path_join folder ''descargas_resultados.csv'';
          s1 = emit (csv_effect csv_path df) s
      in case to_csv E (out s) csv_path of
           Some e \<Rightarrow> (s1, Inl e)
         | None \<Rightarrow> (emit (Print (''Resultados guardados en '' @ csv_path)) s1, Inr ()))"

section \<open>The Google Drive strategy\<close>

text \<open>\<^verbatim>\<open>link.split("/d/")[1].split("/")[0]\<close>\<close>

definition file_id_of :: "string \<Rightarrow> exn + string" where
  "file_id_of link =
     (case split link ''/d/'' of
        Inl e \<Rightarrow> Inl e
      | Inr parts \<Rightarrow>
          (case getitem parts 1 of
             Inl e \<Rightarrow> Inl e
           | Inr rest \<Rightarrow>
               (case split rest ''/'' of
                  Inl e \<Rightarrow> Inl e
                | Inr segs \<Rightarrow> getitem segs 0)))"

text \<open>
  The body of the \<^verbatim>\<open>try\<close> block of \<^verbatim>\<open>GoogleDriveDownloader.download\<close>: it ends with
  the first exception raised in it, or with the status.
\<close>

definition download_try :: "env \<Rightarrow> string \<Rightarrow> string \<Rightarrow> string \<Rightarrow> pystate \<Rightarrow> pystate \<times> (exn + string)" where
  "download_try E name link folder s =
     (case file_id_of link of
        Inl e \<Rightarrow> (s, Inl e)
      | Inr file_id \<Rightarrow>
          (let download_url = ''https://drive.google.com/uc?id='' @ file_id;
               output = path_join folder (name @ ''.pdf'')
           in case print_line E (''Inicio de la descarga: '' @ name) s of
                (s1, Some e) \<Rightarrow> (s1, Inl e)
              | (s1, None) \<Rightarrow>
                  (let s2 = emit (GdownDownload download_url output) s1
                   in case gdown_download E (out s1) download_url output of
                        Some e \<Rightarrow> (s2, Inl e)
                      | None \<Rightarrow>
                          (case print_line E (''Fin de la descarga: '' @ output) s2 of
                             (s3, Some e) \<Rightarrow> (s3, Inl e)
                           | (s3, None) \<Rightarrow> (s3, Inr ''Exitoso'')))))"

text \<open>
  The whole method. \<^verbatim>\<open>except Exception\<close> catches an exception of the body that is an
  instance of \<^verbatim>\<open>Exception\<close>, prints the diagnostic and returns the status; any other
  exception of the body, and an exception of the \<^verbatim>\<open>print\<close> in the handler, leave the
  method.
\<close>

definition download :: "env \<Rightarrow> string \<Rightarrow> string \<Rightarrow> string \<Rightarrow> pystate \<Rightarrow> pystate \<times> (exn + string)" where
  "download E name link folder s =
     (case download_try E name link folder s of
        (s', Inr status) \<Rightarrow> (s', Inr status)
      | (s', Inl e) \<Rightarrow>
          (if is_exception e
           then (case print_line E (''Error al descargar '' @ name @ '': '' @ exn_message e) s' of
                   (s'', Some e') \<Rightarrow> (s'', Inl e')
                 | (s'', None) \<Rightarrow> (s'', Inr ''Fallido''))
           else (s', Inl e)))"

text \<open>\<^verbatim>\<open>strategy.download(...)\<close>, dispatched on the class of the strategy.\<close>

fun strategy_download ::
  "env \<Rightarrow> strategy \<Rightarrow> string \<Rightarrow> string \<Rightarrow> string \<Rightarrow> pystate \<Rightarrow> pystate \<times> (exn + string)" where
  "strategy_download E GoogleDriveDownloader name link folder s = download E name link folder s"

section \<open>The singleton factory\<close>

definition default_strategies :: "(string \<times> strategy) list" where
  "default_strategies = [(''drive.google.com'', GoogleDriveDownloader)]"

text \<open>
  \<^verbatim>\<open>DownloadStrategyFactory()\<close>, that is \<^verbatim>\<open>__new__\<close>: the first call allocates an object,
  stores the dictionary in it and keeps it in \<^verbatim>\<open>_instance\<close>; every call returns
  \<^verbatim>\<open>_instance\<close>.
\<close>

definition factory_new :: "pystate \<Rightarrow> pystate \<times> nat" where
  "factory_new s =
     (case cls_instance s of
        None \<Rightarrow>
          (let a = next_addr s
           in (s\<lparr>cls_instance := Some a,
                  heap := (heap s)(a \<mapsto> \<lparr>strategies = default_strategies\<rparr>),
                  next_addr := Suc a\<rparr>, a))
      | Some a \<Rightarrow> (s, a))"

text \<open>The loop of \<^verbatim>\<open>get_strategy\<close> over the items of the dictionary.\<close>

fun get_strategy_items :: "(string \<times> strategy) list \<Rightarrow> string \<Rightarrow> strategy option" where
  "get_strategy_items [] link = None"
| "get_strategy_items ((source, strategy) # items) link =
     (if str_in source link then Some strategy else get_strategy_items items link)"

text \<open>
  \<^verbatim>\<open>self.get_strategy(link)\<close>, with \<open>self\<close> the address of the factory object. A
  reference always denotes an allocated object (see \<open>factory_new_constructed\<close>).
\<close>

definition get_strategy :: "pystate \<Rightarrow> nat \<Rightarrow> string \<Rightarrow> strategy option" where
  "get_strategy s self link =
     (case heap s self of
        None \<Rightarrow> None
      | Some obj \<Rightarrow> get_strategy_items (strategies obj) link)"

section \<open>Scraper and download\<close>

text \<open>\<^verbatim>\<open>response.raise_for_status()\<close>: an \<^verbatim>\<open>HTTPError\<close> for a status from 400 to 599.\<close>

definition raise_for_status :: "response \<Rightarrow> exn option" where
  "raise_for_status r =
     (if 400 \<le> status_code r \<and> status_code r < 500
      then Some (Exn RequestException
        (str_of_nat (status_code r) @ '' Client Error: '' @ reason r @ '' for url: '' @ resp_url r))
      else if 500 \<le> status_code r \<and> status_code r < 600
      then Some (Exn RequestException
        (str_of_nat (status_code r) @ '' Server Error: '' @ reason r @ '' for url: '' @ resp_url r))
      else None)"

text \<open>The loop of \<^verbatim>\<open>get_pdf_links\<close> over the rows, \<open>links\<close> being the list it appends to.\<close>

fun rows_loop :: "node list \<Rightarrow> (string \<times> string) list \<Rightarrow> exn + (string \<times> string) list" where
  "rows_loop [] links = Inr links"
| "rows_loop (tr # trs) links =
     (let tds = find_all (is_tag ''td'') tr
      in if length tds > 2 then
           (let name = get_text_strip (tds ! 0)
            in case find a_href (tds ! 2) of
                 None \<Rightarrow> rows_loop trs links
               | Some a_tag \<Rightarrow>
                   (case tag_getitem a_tag ''href'' of
                      Inl e \<Rightarrow> Inl e
                    | Inr href \<Rightarrow> rows_loop trs (links @ [(name, href)])))
         else rows_loop trs links)"

definition get_pdf_links :: "env \<Rightarrow> string \<Rightarrow> pystate \<Rightarrow> pystate \<times> (exn + (string \<times> string) list)" where
  "get_pdf_links E url s =
     (let s1 = emit (HttpGet url 10) s;
          fetched =
            (case requests_get E (out s) url 10 of
               Inl e \<Rightarrow> Inl e
             | Inr r \<Rightarrow> (case raise_for_status r of Some e \<Rightarrow> Inl e | None \<Rightarrow> Inr r))
      in case fetched of
           Inl e \<Rightarrow>
             (if is_request_exception e
              then (emit (Print (''Error al acceder a la p'' @ [CHR 0xC3, CHR 0xA1] @ ''gina: ''
                                  @ exn_message e)) s1, Inr [])
              else (s1, Inl e))
         | Inr r \<Rightarrow>
             (s1, rows_loop (find_all (is_tag ''tr'') (beautiful_soup E (resp_text r))) []))"

text \<open>
  The loop of \<^verbatim>\<open>download_pdfs\<close>. An exception that leaves \<^verbatim>\<open>download\<close> ends the loop;
  \<^verbatim>\<open>time.sleep\<close> raises \<^verbatim>\<open>ValueError\<close> for a negative delay.
\<close>

fun download_loop ::
  "env \<Rightarrow> nat \<Rightarrow> string \<Rightarrow> int \<Rightarrow> (string \<times> string) list \<Rightarrow> DownloadLogger \<Rightarrow> pystate
   \<Rightarrow> pystate \<times> (exn + DownloadLogger)" where
  "download_loop E factory folder delay [] logger s = (s, Inr logger)"
| "download_loop E factory folder delay ((name, link) # links) logger s =
     (case (case get_strategy s factory link of
              None \<Rightarrow> (s, Inr ''No soportado'')
            | Some strategy \<Rightarrow> strategy_download E strategy name link folder s) of
        (s1, Inl e) \<Rightarrow> (s1, Inl e)
      | (s1, Inr status) \<Rightarrow>
          (let logger1 = update logger name status;
               s2 = emit (Sleep delay) s1
           in if delay < 0 then (s2, Inl (Exn ValueError ''sleep length must be non-negative''))
              else download_loop E factory folder delay links logger1 s2))"

definition download_pdfs ::
  "env \<Rightarrow> (string \<times> string) list \<Rightarrow> string \<Rightarrow> int \<Rightarrow> pystate \<Rightarrow> pystate \<times> (exn + unit)" where
  "download_pdfs E links folder delay s =
     (let s1 = emit (MakeDirs folder) s
      in case os_makedirs E (out s) folder of
           Some e \<Rightarrow> (s1, Inl e)
         | None \<Rightarrow>
             (let (s2, factory) = factory_new s1
              in case download_loop E factory folder delay links DownloadLogger_init s2 of
                   (s3, Inl e) \<Rightarrow> (s3, Inl e)
                 | (s3, Inr logger) \<Rightarrow> save_to_csv E logger folder s3))"

definition main_url :: string where
  "main_url = ''https://secretariadesalud.chubut.gov.ar/epidemiological_releases''"

definition main :: "env \<Rightarrow> pystate \<Rightarrow> pystate \<times> (exn + unit)" where
  "main E s =
     (case get_pdf_links E main_url s of
        (s1, Inl e) \<Rightarrow> (s1, Inl e)
      | (s1, Inr links) \<Rightarrow>
          (if links = [] then (emit (Print ''No se encontraron enlaces de descarga.'') s1, Inr ())
           else (case download_pdfs E links ''pdfs'' 2 s1 of
                   (s2, Inl e) \<Rightarrow> (s2, Inl e)
                 | (s2, Inr u) \<Rightarrow> (emit (Print ''Descarga completada.'') s2, Inr ()))))"

section \<open>Invariants of the store and runs of the program\<close>

text \<open>
  The store as it is once the factory has been constructed: one object, at address 0,
  holding the dictionary of \<^verbatim>\<open>__new__\<close>, and \<^verbatim>\<open>_instance\<close> referring to it. Before the
  first construction the store is empty.
\<close>

definition constructed :: "pystate \<Rightarrow> bool" where
  "constructed s =
     (cls_instance s = Some 0 \<and> next_addr s = 1
      \<and> heap s = [0 \<mapsto> \<lparr>strategies = default_strategies\<rparr>])"

definition factory_inv :: "pystate \<Rightarrow> bool" where
  "factory_inv s =
     (constructed s \<or> (cls_instance s = None \<and> heap s = Map.empty \<and> next_addr s = 0))"

text \<open>Two states with the same class attribute and the same objects.\<close>

definition same_store :: "pystate \<Rightarrow> pystate \<Rightarrow> bool" where
  "same_store s s' =
     (cls_instance s' = cls_instance s \<and> heap s' = heap s \<and> next_addr s' = next_addr s)"

text \<open>
  A run of the process is a sequence of the operations that touch the factory:
  constructing it, looking a link up in a factory object, and the two functions of the
  program that construct it themselves. Each operation leaves an observation.
\<close>

datatype factory_op =
  Construct
| GetStrategy nat string
| DownloadPdfs env "(string \<times> string) list" string int
| Main env

datatype factory_out = Instance nat | Strategy "strategy option" | Done

fun exec_op :: "factory_op \<Rightarrow> pystate \<Rightarrow> pystate \<times> factory_out" where
  "exec_op Construct s = (let (s', a) = factory_new s in (s', Instance a))"
| "exec_op (GetStrategy a link) s = (s, Strategy (get_strategy s a link))"
| "exec_op (DownloadPdfs E links folder delay) s = (fst (download_pdfs E links folder delay s), Done)"
| "exec_op (Main E) s = (fst (main E s), Done)"

fun exec_ops :: "factory_op list \<Rightarrow> pystate \<Rightarrow> pystate \<times> factory_out list" where
  "exec_ops [] s = (s, [])"
| "exec_ops (op # ops) s =
     (let (s1, r) = exec_op op s; (s2, rs) = exec_ops ops s1 in (s2, r # rs))"

text \<open>The state once the factory has been constructed, nothing else having happened.\<close>

definition constructed_state :: pystate where
  "constructed_state =
     \<lparr>out = [], cls_instance = Some 0,
      heap = [0 \<mapsto> \<lparr>strategies = default_strategies\<rparr>], next_addr = 1\<rparr>"

text \<open>
  Environments for concrete runs: one where the page cannot be fetched, and one where the
  fetch answers with a given status and the parser returns a given document, the transfer
  of a file failing or not as \<open>gd\<close> says for its URL.
\<close>

definition offline_env :: env where
  "offline_env =
     \<lparr>requests_get = (\<lambda>tr url t. Inl (Exn RequestException ''connection refused'')),
      beautiful_soup = (\<lambda>t. Tag ''[document]'' [] []),
      gdown_download = (\<lambda>tr u p. None),
      os_makedirs = (\<lambda>tr f. None),
      to_csv = (\<lambda>tr p. None),
      stdout_write = (\<lambda>tr line. None)\<rparr>"

definition page_env :: "nat \<Rightarrow> node \<Rightarrow> (string \<Rightarrow> exn option) \<Rightarrow> env" where
  "page_env status soup gd =
     \<lparr>requests_get = (\<lambda>tr url t.
        Inr \<lparr>status_code = status, reason = ''R'', resp_url = url, resp_text = ''html''\<rparr>),
      beautiful_soup = (\<lambda>t. soup),
      gdown_download = (\<lambda>tr u p. gd u),
      os_makedirs = (\<lambda>tr f. None),
      to_csv = (\<lambda>tr p. None),
      stdout_write = (\<lambda>tr line. None)\<rparr>"

text \<open>The effects that create a folder or write a file.\<close>

fun writes_files :: "effect \<Rightarrow> bool" where
  "writes_files (MakeDirs folder) = True"
| "writes_files (GdownDownload url output) = True"
| "writes_files (ToCsv path header body) = True"
| "writes_files (Print line) = False"
| "writes_files (HttpGet url t) = False"
| "writes_files (Sleep d) = False"

text \<open>The logger after the given calls of \<^verbatim>\<open>update\<close>, made in order on a new logger.\<close>

definition logger_after :: "(string \<times> string) list \<Rightarrow> DownloadLogger" where
  "logger_after calls = foldl (\<lambda>lg (name, status). update lg name status) DownloadLogger_init calls"

text \<open>
  What a row contributes, said over the document: the cells of a row are its \<^verbatim>\<open>td\<close>
  descendants in document order; a row with at least three cells whose third cell
  contains an \<^verbatim>\<open>a\<close> tag with an \<^verbatim>\<open>href\<close> contributes the text of its first cell and the
  \<^verbatim>\<open>href\<close> of the first such tag; any other row contributes nothing.
\<close>

definition row_link :: "node \<Rightarrow> (string \<times> string) option" where
  "row_link tr =
     (case filter (is_tag ''td'') (descendants tr) of
        c0 # c1 # c2 # cells \<Rightarrow>
          (case filter a_href (descendants c2) of
             [] \<Rightarrow> None
           | a # as \<Rightarrow>
               (case map_of (node_attrs a) ''href'' of
                  None \<Rightarrow> None
                | Some href \<Rightarrow> Some (get_text_strip c0, href)))
      | _ \<Rightarrow> None)"




definition linked_cell :: node where
  "linked_cell =
     Tag ''td'' []
       [Tag ''a'' [] [Str NavigableString ''top''],
        Tag ''a'' [(''href'', ''https://drive.google.com/file/d/ABC123/view'')]
          [Str NavigableString ''PDF'']]"

definition linked_row :: node where
  "linked_row =
     Tag ''tr'' []
       [Tag ''td'' []
          [Str NavigableString ([CHR 0xC2, CHR 0xA0] @ ''Bulletin 1 '' @ [CHR 0xC2, CHR 0xA0]),
           Tag ''script'' [] [Str Script ''x()''],
           Str Comment ''old''],
        Tag ''td'' [] [Str NavigableString ''2024''],
        linked_cell]"

definition unlinked_cell :: node where
  "unlinked_cell = Tag ''td'' [] [Tag ''a'' [(''name'', ''x'')] [Str NavigableString ''none'']]"

definition unlinked_row :: node where
  "unlinked_row =
     Tag ''tr'' []
       [Tag ''td'' [] [Str NavigableString ''Bulletin 2''],
        Tag ''td'' [] [],
        unlinked_cell]"

definition bulletin_page :: node where
  "bulletin_page =
     Tag ''[document]'' []
       [Tag ''table'' []
          [Tag ''tr'' [] [Tag ''th'' [] [Str NavigableString ''Nombre'']],
           linked_row,
           unlinked_row]]"

text \<open>
  An environment where the page holds the bulletins and the transfer is interrupted from
  the keyboard.
\<close>

definition interrupted_env :: env where
  "interrupted_env = page_env 200 bulletin_page (\<lambda>u. Some (Exn KeyboardInterrupt []))"

text \<open>
  An environment whose standard output is UTF-8 and refuses the two lines of
  \<^verbatim>\<open>download\<close> for a row whose name is the lone surrogate U+D800, with the error of the
  codec for the position of that character in the line.
\<close>

definition lone_surrogate :: string where
  "lone_surrogate = [CHR 0xED, CHR 0xA0, CHR 0x80]"

definition surrogate_error :: "string \<Rightarrow> exn" where
  "surrogate_error position =
     Exn UnicodeEncodeError
       ([CHR 0x27] @ ''utf-8'' @ [CHR 0x27] @ '' codec can'' @ [CHR 0x27]
        @ ''t encode character '' @ [CHR 0x27, CHR 0x5C] @ ''ud800'' @ [CHR 0x27]
        @ '' in position '' @ position @ '': surrogates not allowed'')"

definition strict_stdout_env :: env where
  "strict_stdout_env =
     \<lparr>requests_get = (\<lambda>tr url t. Inl (Exn RequestException ''connection refused'')),
      beautiful_soup = (\<lambda>t. Tag ''[document]'' [] []),
      gdown_download = (\<lambda>tr u p. None),
      os_makedirs = (\<lambda>tr f. None),
      to_csv = (\<lambda>tr p. None),
      stdout_write = (\<lambda>tr line.
        if line = ''Inicio de la descarga: '' @ lone_surrogate
        then Some (surrogate_error ''23'')
        else if prefix (''Error al descargar '' @ lone_surrogate) line
        then Some (surrogate_error ''19'')
        else None)\<rparr>"

section \<open>Strings: substrings and splitting\<close>

lemma str_in_iff: "str_in sub s \<longleftrightarrow> (\<exists>p q. s = p @ sub @ q)"
proof (induction s)
  case Nil
  then show ?case by auto
next
  case (Cons c cs)
  show ?case
  proof
    assume "str_in sub (c # cs)"
    then consider "prefix sub (c # cs)" | "str_in sub cs" by auto
    then show "\<exists>p q. c # cs = p @ sub @ q"
    proof cases
      case 1
      then obtain q where "c # cs = sub @ q" by (auto simp: prefix_def)
      then have "c # cs = [] @ sub @ q" by simp
      then show ?thesis by blast
    next
      case 2
      with Cons.IH obtain p q where "cs = p @ sub @ q" by blast
      then have "c # cs = (c # p) @ sub @ q" by simp
      then show ?thesis by blast
    qed
  next
    assume "\<exists>p q. c # cs = p @ sub @ q"
    then obtain p q where pq: "c # cs = p @ sub @ q" by blast
    show "str_in sub (c # cs)"
    proof (cases p)
      case Nil
      with pq have "prefix sub (c # cs)" by (simp add: prefix_def)
      then show ?thesis by simp
    next
      case (Cons x p')
      with pq have "cs = p' @ sub @ q" by simp
      with Cons.IH have "str_in sub cs" by blast
      then show ?thesis by simp
    qed
  qed
qed

lemma split_from_first:
  "sep \<noteq> [] \<Longrightarrow> \<not> str_in sep (pre @ butlast sep) \<Longrightarrow>
   split_from sep cur (pre @ sep @ suf) = (cur @ pre) # split_from sep [] suf"
proof (induction pre arbitrary: cur)
  case Nil
  then obtain c cs where s: "sep @ suf = c # cs" by (cases sep) auto
  have p: "prefix sep (c # cs)" using s by (metis prefixI)
  have d: "drop (length sep) (c # cs) = suf" using s[symmetric] by simp
  have "split_from sep cur (c # cs) = cur # split_from sep [] suf"
    using p d Nil.prems(1) by simp
  then show ?case using s by simp
next
  case (Cons x pre)
  from Cons.prems(2) have a: "\<not> prefix sep (x # pre @ butlast sep)"
    and b: "\<not> str_in sep (pre @ butlast sep)" by auto
  have np: "\<not> prefix sep (x # pre @ sep @ suf)"
  proof
    assume h: "prefix sep (x # pre @ sep @ suf)"
    have "prefix (x # pre @ butlast sep) (x # pre @ sep @ suf)"
      using Cons.prems(1) by (metis append_butlast_last_id append.assoc append_Cons prefixI)
    moreover have "length sep \<le> length (x # pre @ butlast sep)" by simp
    ultimately have "prefix sep (x # pre @ butlast sep)"
      using h prefix_length_prefix by blast
    with a show False by simp
  qed
  then have "split_from sep cur ((x # pre) @ sep @ suf) = split_from sep (cur @ [x]) (pre @ sep @ suf)"
    by auto
  then show ?case using Cons.IH[OF Cons.prems(1) b, of "cur @ [x]"] by simp
qed

lemma first_occurrence_exists:
  "sep \<noteq> [] \<Longrightarrow> str_in sep s \<Longrightarrow> \<exists>pre suf. s = pre @ sep @ suf \<and> \<not> str_in sep (pre @ butlast sep)"
proof (induction s)
  case Nil
  then show ?case by simp
next
  case (Cons c cs)
  show ?case
  proof (cases "prefix sep (c # cs)")
    case True
    then obtain q where "c # cs = [] @ sep @ q" by (auto simp: prefix_def)
    moreover have "\<not> str_in sep ([] @ butlast sep)"
    proof
      assume "str_in sep ([] @ butlast sep)"
      then obtain p q where "butlast sep = p @ sep @ q" by (auto simp: str_in_iff)
      then have "length (butlast sep) = length (p @ sep @ q)" by simp
      then have "length sep - 1 = length p + length sep + length q" by simp
      moreover have "0 < length sep" using Cons.prems(1) by simp
      ultimately show False by arith
    qed
    ultimately show ?thesis by blast
  next
    case False
    with Cons.prems have "str_in sep cs" by simp
    with Cons.IH Cons.prems(1) obtain pre suf where
      e: "cs = pre @ sep @ suf" and n: "\<not> str_in sep (pre @ butlast sep)" by blast
    have "prefix (c # pre @ butlast sep) (c # cs)"
      using e Cons.prems(1) by (metis append_butlast_last_id append.assoc append_Cons prefixI)
    then have "\<not> prefix sep (c # pre @ butlast sep)"
      using False prefix_order.trans by blast
    with n have "\<not> str_in sep ((c # pre) @ butlast sep)" by simp
    moreover have "c # cs = (c # pre) @ sep @ suf" using e by simp
    ultimately show ?thesis by blast
  qed
qed

lemma takeWhile_snoc_stop:
  "\<not> P y \<Longrightarrow> takeWhile P (xs @ y # ys) = takeWhile P xs"
  by (induction xs) auto

lemma hd_split_from_takeWhile:
  "takeWhile (\<lambda>x. x \<noteq> c) (hd (split_from (c # r) cur s)) = takeWhile (\<lambda>x. x \<noteq> c) (cur @ s)"
proof (induction s arbitrary: cur)
  case Nil
  then show ?case by simp
next
  case (Cons x xs)
  show ?case
  proof (cases "prefix (c # r) (x # xs)")
    case True
    then have x: "x = c" by simp
    have "split_from (c # r) cur (x # xs) = cur # split_from (c # r) [] (drop (length (c # r)) (x # xs))"
      using True by simp
    then have "hd (split_from (c # r) cur (x # xs)) = cur" by simp
    moreover have "takeWhile (\<lambda>x. x \<noteq> c) (cur @ c # xs) = takeWhile (\<lambda>x. x \<noteq> c) cur"
      by (rule takeWhile_snoc_stop) simp
    ultimately show ?thesis using x by simp
  next
    case False
    then have "split_from (c # r) cur (x # xs) = split_from (c # r) (cur @ [x]) xs"
      by auto
    then show ?thesis using Cons.IH[of "cur @ [x]"] by simp
  qed
qed

lemma hd_split_from_single:
  "hd (split_from [c] cur s) = cur @ takeWhile (\<lambda>x. x \<noteq> c) s"
  by (induction s arbitrary: cur) auto

lemma split_from_nonempty: "split_from sep cur s \<noteq> []"
  by (induction sep cur s rule: split_from.induct) auto

lemma file_id_of_first:
  assumes "link = pre @ ''/d/'' @ suf" and "\<not> str_in ''/d/'' (pre @ ''/d'')"
  shows "file_id_of link = Inr (takeWhile (\<lambda>c. c \<noteq> CHR ''/'') suf)"
proof -
  let ?rest = "split_from ''/d/'' [] suf"
  have parts: "split_from ''/d/'' [] link = pre # ?rest"
    using split_from_first[of "''/d/''" pre "[]" suf] assms by simp
  have ne: "?rest \<noteq> []" by (rule split_from_nonempty)
  then have g1: "getitem (pre # ?rest) 1 = Inr (hd ?rest)"
    by (cases ?rest) (auto simp: getitem_def)
  have ne2: "split_from ''/'' [] (hd ?rest) \<noteq> []" by (rule split_from_nonempty)
  then have g2: "getitem (split_from ''/'' [] (hd ?rest)) 0 = Inr (hd (split_from ''/'' [] (hd ?rest)))"
    by (cases "split_from ''/'' [] (hd ?rest)") (auto simp: getitem_def)
  have "hd (split_from ''/'' [] (hd ?rest)) = takeWhile (\<lambda>x. x \<noteq> CHR ''/'') (hd ?rest)"
    using hd_split_from_single[of "CHR ''/''" "[]" "hd ?rest"] by simp
  also have "\<dots> = takeWhile (\<lambda>x. x \<noteq> CHR ''/'') suf"
    using hd_split_from_takeWhile[of "CHR ''/''" "''d/''" "[]" suf] by simp
  finally show ?thesis using parts g1 g2 by (simp add: file_id_of_def split_def)
qed

section \<open>The store is only changed by the first construction\<close>

lemma same_store_refl: "same_store s s"
  by (simp add: same_store_def)

lemma same_store_trans: "same_store s s1 \<Longrightarrow> same_store s1 s2 \<Longrightarrow> same_store s s2"
  by (simp add: same_store_def)

lemma same_store_emit: "same_store s (emit e s)"
  by (simp add: same_store_def emit_def)

lemma same_store_emit2: "same_store s s1 \<Longrightarrow> same_store s (emit e s1)"
  by (simp add: same_store_def emit_def)

lemma print_line_fst: "fst (print_line E line s) = emit (Print line) s"
  by (simp add: print_line_def)

lemma download_try_store: "same_store s (fst (download_try E name link folder s))"
proof (cases "file_id_of link")
  case (Inl e)
  then show ?thesis by (simp add: download_try_def same_store_refl)
next
  case (Inr file_id)
  let ?s1 = "emit (Print (''Inicio de la descarga: '' @ name)) s"
  let ?s2 = "emit (GdownDownload (''https://drive.google.com/uc?id='' @ file_id)
                     (path_join folder (name @ ''.pdf''))) ?s1"
  let ?s3 = "emit (Print (''Fin de la descarga: '' @ path_join folder (name @ ''.pdf''))) ?s2"
  have "fst (download_try E name link folder s) \<in> {?s1, ?s2, ?s3}"
    using Inr by (simp add: download_try_def print_line_def Let_def split: option.splits)
  moreover have "same_store s ?s1" "same_store s ?s2" "same_store s ?s3"
    by (simp_all add: same_store_emit same_store_emit2)
  ultimately show ?thesis by auto
qed

lemma download_store: "same_store s (fst (download E name link folder s))"
proof -
  obtain s' r where t: "download_try E name link folder s = (s', r)"
    by (cases "download_try E name link folder s")
  have s': "same_store s s'" using download_try_store[of s E name link folder] t by simp
  show ?thesis
  proof (cases r)
    case (Inr status)
    then show ?thesis using t s' by (simp add: download_def)
  next
    case (Inl e)
    have "fst (download E name link folder s) = s' \<or>
          fst (download E name link folder s)
            = emit (Print (''Error al descargar '' @ name @ '': '' @ exn_message e)) s'"
      using t Inl by (simp add: download_def print_line_def split: option.splits)
    then show ?thesis using s' same_store_emit2[OF s'] by auto
  qed
qed

lemma strategy_download_store: "same_store s (fst (strategy_download E st name link folder s))"
  by (cases st) (simp add: download_store)

lemma get_strategy_same_store: "same_store s s' \<Longrightarrow> get_strategy s' a link = get_strategy s a link"
  by (simp add: same_store_def get_strategy_def)

lemma download_loop_raises:
  "(case get_strategy s factory link of
      None \<Rightarrow> (s, Inr ''No soportado'')
    | Some strategy \<Rightarrow> strategy_download E strategy name link folder s) = (s1, Inl e) \<Longrightarrow>
   download_loop E factory folder delay ((name, link) # links) logger s = (s1, Inl e)"
  by simp

lemma download_loop_continues:
  "(case get_strategy s factory link of
      None \<Rightarrow> (s, Inr ''No soportado'')
    | Some strategy \<Rightarrow> strategy_download E strategy name link folder s) = (s1, Inr status) \<Longrightarrow>
   download_loop E factory folder delay ((name, link) # links) logger s =
     (if delay < 0
      then (emit (Sleep delay) s1, Inl (Exn ValueError ''sleep length must be non-negative''))
      else download_loop E factory folder delay links (update logger name status)
             (emit (Sleep delay) s1))"
  by (simp add: Let_def)

lemma download_loop_store:
  "same_store s (fst (download_loop E factory folder delay links logger s))"
proof (induction links arbitrary: logger s)
  case Nil
  then show ?case by (simp add: same_store_refl)
next
  case (Cons nl links)
  obtain name link where nl: "nl = (name, link)" by (cases nl)
  obtain s1 r where d:
    "(case get_strategy s factory link of
        None \<Rightarrow> (s, Inr ''No soportado'')
      | Some strategy \<Rightarrow> strategy_download E strategy name link folder s) = (s1, r)"
    by (cases "(case get_strategy s factory link of
        None \<Rightarrow> (s, Inr ''No soportado'')
      | Some strategy \<Rightarrow> strategy_download E strategy name link folder s)")
  have s1: "same_store s s1"
  proof (cases "get_strategy s factory link")
    case None
    with d show ?thesis by (simp add: same_store_refl)
  next
    case (Some st)
    with d strategy_download_store[of s E st name link folder] show ?thesis by simp
  qed
  then have s2: "same_store s (emit (Sleep delay) s1)" by (rule same_store_emit2)
  show ?case
  proof (cases r)
    case (Inl e)
    with d have "(case get_strategy s factory link of
        None \<Rightarrow> (s, Inr ''No soportado'')
      | Some strategy \<Rightarrow> strategy_download E strategy name link folder s) = (s1, Inl e)"
      by simp
    from download_loop_raises[OF this] show ?thesis using nl s1 by simp
  next
    case (Inr status)
    with d have "(case get_strategy s factory link of
        None \<Rightarrow> (s, Inr ''No soportado'')
      | Some strategy \<Rightarrow> strategy_download E strategy name link folder s) = (s1, Inr status)"
      by simp
    note step = download_loop_continues[OF this, where delay = delay and links = links
        and logger = logger]
    show ?thesis
    proof (cases "delay < 0")
      case True
      then show ?thesis using step nl s2 by simp
    next
      case False
      then show ?thesis
        using step nl
          same_store_trans[OF s2 Cons.IH[of "emit (Sleep delay) s1" "update logger name status"]]
        by simp
    qed
  qed
qed

lemma save_to_csv_store: "same_store s (fst (save_to_csv E logger folder s))"
  by (simp add: save_to_csv_def Let_def same_store_emit2 same_store_emit split: option.splits)

lemma get_pdf_links_store: "same_store s (fst (get_pdf_links E url s))"
  by (simp add: get_pdf_links_def Let_def same_store_emit2 same_store_emit split: sum.splits option.splits)

lemma constructed_same_store: "same_store s s' \<Longrightarrow> constructed s \<Longrightarrow> constructed s'"
  by (simp add: same_store_def constructed_def)

lemma factory_inv_same_store: "same_store s s' \<Longrightarrow> factory_inv s \<Longrightarrow> factory_inv s'"
  by (auto simp: same_store_def factory_inv_def constructed_def)

lemma factory_new_constructed:
  "factory_inv s \<Longrightarrow> factory_new s = (s', a) \<Longrightarrow> constructed s' \<and> a = 0"
  by (auto simp: factory_inv_def constructed_def factory_new_def Let_def split: option.splits)

lemma factory_new_keeps_constructed: "constructed s \<Longrightarrow> constructed (fst (factory_new s))"
  by (simp add: constructed_def factory_new_def)

lemma factory_new_keeps_inv:
  assumes "factory_inv s"
  shows "factory_inv (fst (factory_new s))"
proof -
  obtain s' a where f: "factory_new s = (s', a)" by (cases "factory_new s")
  from factory_new_constructed[OF assms f] have "constructed s'" by simp
  then show ?thesis using f by (simp add: factory_inv_def)
qed

lemma download_pdfs_preserves:
  assumes st: "\<And>s s'. same_store s s' \<Longrightarrow> P s \<Longrightarrow> P s'"
    and fn: "\<And>s. P s \<Longrightarrow> P (fst (factory_new s))"
    and inv: "P s"
  shows "P (fst (download_pdfs E links folder delay s))"
proof -
  let ?s1 = "emit (MakeDirs folder) s"
  have i1: "P ?s1" using inv same_store_emit st by blast
  show ?thesis
  proof (cases "os_makedirs E (out s) folder")
    case (Some e)
    then show ?thesis using i1 by (simp add: download_pdfs_def Let_def)
  next
    case None
    obtain s2 a where f: "factory_new ?s1 = (s2, a)" by (cases "factory_new ?s1")
    have i2: "P s2" using fn[OF i1] f by simp
    obtain s3 r where l: "download_loop E a folder delay links DownloadLogger_init s2 = (s3, r)"
      by (cases "download_loop E a folder delay links DownloadLogger_init s2")
    have "same_store s2 s3"
      using download_loop_store[of s2 E a folder delay links DownloadLogger_init] l by simp
    then have i3: "P s3" using i2 st by blast
    show ?thesis
    proof (cases r)
      case (Inl e)
      then show ?thesis using None f l i3 by (simp add: download_pdfs_def Let_def)
    next
      case (Inr logger)
      have "P (fst (save_to_csv E logger folder s3))"
        using save_to_csv_store i3 st by blast
      then show ?thesis using None f l Inr by (simp add: download_pdfs_def Let_def)
    qed
  qed
qed

lemma main_preserves:
  assumes st: "\<And>s s'. same_store s s' \<Longrightarrow> P s \<Longrightarrow> P s'"
    and fn: "\<And>s. P s \<Longrightarrow> P (fst (factory_new s))"
    and inv: "P s"
  shows "P (fst (main E s))"
proof -
  obtain s1 r where g: "get_pdf_links E main_url s = (s1, r)" by (cases "get_pdf_links E main_url s")
  have "same_store s s1" using get_pdf_links_store[of s E main_url] g by simp
  then have i1: "P s1" using inv st by blast
  show ?thesis
  proof (cases r)
    case (Inl e)
    then show ?thesis using g i1 by (simp add: main_def)
  next
    case (Inr links)
    show ?thesis
    proof (cases "links = []")
      case True
      have "P (emit (Print ''No se encontraron enlaces de descarga.'') s1)"
        using i1 same_store_emit st by blast
      then show ?thesis using g Inr True by (simp add: main_def)
    next
      case False
      obtain s2 r2 where d: "download_pdfs E links ''pdfs'' 2 s1 = (s2, r2)"
        by (cases "download_pdfs E links ''pdfs'' 2 s1")
      have i2: "P s2"
        using download_pdfs_preserves[of P s1 E links "''pdfs''" 2, OF st fn i1] d by simp
      then have "P (emit (Print ''Descarga completada.'') s2)"
        using same_store_emit st by blast
      then show ?thesis using g Inr False d i2 by (cases r2) (auto simp: main_def)
    qed
  qed
qed

lemma exec_op_preserves:
  assumes st: "\<And>s s'. same_store s s' \<Longrightarrow> P s \<Longrightarrow> P s'"
    and fn: "\<And>s. P s \<Longrightarrow> P (fst (factory_new s))"
    and inv: "P s"
  shows "P (fst (exec_op op s))"
proof (cases op)
  case Construct
  then show ?thesis using fn[OF inv] by (cases "factory_new s") auto
next
  case (GetStrategy a link)
  then show ?thesis using inv by simp
next
  case (DownloadPdfs E links folder delay)
  then show ?thesis using download_pdfs_preserves[of P s, OF st fn inv] by simp
next
  case (Main E)
  then show ?thesis using main_preserves[of P s, OF st fn inv] by simp
qed

lemma exec_op_inv: "factory_inv s \<Longrightarrow> factory_inv (fst (exec_op op s))"
  using exec_op_preserves[of factory_inv s op] factory_inv_same_store factory_new_keeps_inv
  by blast

lemma exec_op_constructed: "constructed s \<Longrightarrow> constructed (fst (exec_op op s))"
  using exec_op_preserves[of constructed s op] constructed_same_store factory_new_keeps_constructed
  by blast

lemma get_strategy_constructed:
  "constructed s \<Longrightarrow> get_strategy s 0 link = get_strategy_items default_strategies link"
  by (simp add: constructed_def get_strategy_def)

lemma exec_ops_length: "exec_ops ops s0 = (s, outs) \<Longrightarrow> length outs = length ops"
  by (induction ops arbitrary: s0 s outs) (auto split: prod.splits)

lemma constructed_inv: "constructed s \<Longrightarrow> factory_inv s"
  by (simp add: factory_inv_def)

lemma exec_op_instance:
  assumes inv: "factory_inv s" and e: "exec_op op s = (s', Instance a)"
  shows "a = 0 \<and> constructed s'"
proof (cases op)
  case Construct
  obtain s1 a1 where f: "factory_new s = (s1, a1)" by (cases "factory_new s")
  with e Construct have "s' = s1" "a = a1" by simp_all
  then show ?thesis using factory_new_constructed[OF inv f] by simp
next
  case (GetStrategy b link)
  with e show ?thesis by simp
next
  case (DownloadPdfs E links folder delay)
  with e show ?thesis by simp
next
  case (Main E)
  with e show ?thesis by simp
qed

lemma exec_op_lookup:
  assumes "constructed s" and "exec_op (GetStrategy 0 link) s = (s', r)"
  shows "r = Strategy (get_strategy_items default_strategies link)"
  using assms get_strategy_constructed[of s link] by simp

lemma exec_ops_constructed:
  "constructed s0 \<Longrightarrow> exec_ops ops s0 = (s, outs) \<Longrightarrow>
     constructed s
     \<and> (\<forall>a. Instance a \<in> set outs \<longrightarrow> a = 0)
     \<and> (\<forall>i link. i < length ops \<and> ops ! i = GetStrategy 0 link
           \<longrightarrow> outs ! i = Strategy (get_strategy_items default_strategies link))"
proof (induction ops arbitrary: s0 s outs)
  case Nil
  then show ?case by simp
next
  case (Cons op ops)
  obtain s1 r where e1: "exec_op op s0 = (s1, r)" by (cases "exec_op op s0")
  obtain s2 rs where e2: "exec_ops ops s1 = (s2, rs)" by (cases "exec_ops ops s1")
  have c1: "constructed s1" using exec_op_constructed[OF Cons.prems(1), of op] e1 by simp
  have eq: "s = s2" "outs = r # rs" using Cons.prems(2) e1 e2 by auto
  note ih = Cons.IH[OF c1 e2]
  have r0: "\<forall>a. r = Instance a \<longrightarrow> a = 0"
    using e1 exec_op_instance[OF constructed_inv[OF Cons.prems(1)]] by blast
  have rg: "\<forall>link. op = GetStrategy 0 link \<longrightarrow> r = Strategy (get_strategy_items default_strategies link)"
    using e1 exec_op_lookup[OF Cons.prems(1)] by blast
  show ?case
  proof (intro conjI allI impI)
    show "constructed s" using ih eq by simp
  next
    fix a assume "Instance a \<in> set outs"
    then show "a = 0" using eq r0 ih by auto
  next
    fix i link assume h: "i < length (op # ops) \<and> (op # ops) ! i = GetStrategy 0 link"
    show "outs ! i = Strategy (get_strategy_items default_strategies link)"
    proof (cases i)
      case 0
      then show ?thesis using h rg eq by simp
    next
      case (Suc j)
      then show ?thesis using h ih eq by simp
    qed
  qed
qed

lemma exec_ops_inv:
  "factory_inv s0 \<Longrightarrow> exec_ops ops s0 = (s, outs) \<Longrightarrow>
     factory_inv s
     \<and> (\<forall>a. Instance a \<in> set outs \<longrightarrow> a = 0 \<and> constructed s)
     \<and> (\<forall>i a link. i < length ops \<and> ops ! i = GetStrategy a link \<and> Instance a \<in> set (take i outs)
           \<longrightarrow> outs ! i = Strategy (get_strategy_items default_strategies link))"
proof (induction ops arbitrary: s0 s outs)
  case Nil
  then show ?case by simp
next
  case (Cons op ops)
  obtain s1 r where e1: "exec_op op s0 = (s1, r)" by (cases "exec_op op s0")
  obtain s2 rs where e2: "exec_ops ops s1 = (s2, rs)" by (cases "exec_ops ops s1")
  have i1: "factory_inv s1" using exec_op_inv[OF Cons.prems(1), of op] e1 by simp
  have eq: "s = s2" "outs = r # rs" using Cons.prems(2) e1 e2 by auto
  note ih = Cons.IH[OF i1 e2]
  have r0: "\<forall>a. r = Instance a \<longrightarrow> a = 0 \<and> constructed s1"
    using e1 exec_op_instance[OF Cons.prems(1)] by blast
  show ?case
  proof (intro conjI allI impI)
    show "factory_inv s" using ih eq by simp
  next
    fix a assume a: "Instance a \<in> set outs"
    show "a = 0"  using a eq r0 ih by auto
    show "constructed s"
    proof (cases "r = Instance a")
      case True
      then have "constructed s1" using r0 by simp
      then show ?thesis using exec_ops_constructed[OF _ e2] eq by simp
    next
      case False
      then show ?thesis using a eq ih by auto
    qed
  next
    fix i a link
    assume h: "i < length (op # ops) \<and> (op # ops) ! i = GetStrategy a link
               \<and> Instance a \<in> set (take i outs)"
    show "outs ! i = Strategy (get_strategy_items default_strategies link)"
    proof (cases i)
      case 0
      then show ?thesis using h by simp
    next
      case (Suc j)
      show ?thesis
      proof (cases "r = Instance a")
        case True
        then have c: "constructed s1" and a0: "a = 0" using r0 by simp_all
        show ?thesis
          using exec_ops_constructed[OF c e2] h Suc eq a0 by simp
      next
        case False
        then have "Instance a \<in> set (take j rs)" using h Suc eq by simp
        then show ?thesis using ih h Suc eq by simp
      qed
    qed
  qed
qed

lemma initial_state_inv: "factory_inv initial_state"
  by (simp add: factory_inv_def initial_state_def)

lemma demo_run:
  "exec_ops [Construct, GetStrategy 0 ''drive.google.com/d/A'', Construct,
             GetStrategy 0 ''example.com/x'']
     initial_state
   = (\<lparr>out = [], cls_instance = Some 0,
        heap = [0 \<mapsto> \<lparr>strategies = default_strategies\<rparr>], next_addr = 1\<rparr>,
      [Instance 0, Strategy (Some GoogleDriveDownloader), Instance 0, Strategy None])"
  by (simp add: initial_state_def factory_new_def get_strategy_def default_strategies_def)

section \<open>Lookups in the registry\<close>

lemma get_strategy_items_none:
  "(\<forall>source \<in> set (map fst items). \<not> str_in source link) \<Longrightarrow> get_strategy_items items link = None"
  by (induction items) auto

section \<open>One download, and the loop over the links\<close>

lemma file_id_error:
  assumes "file_id_of link = Inl e"
  shows "e = Exn IndexError ''list index out of range''"
proof -
  have "getitem (split_from ''/'' [] rest) 0 = Inr (hd (split_from ''/'' [] rest))" for rest
    using split_from_nonempty[of "''/''" "[]" rest]
    by (cases "split_from ''/'' [] rest") (simp_all add: getitem_def)
  then show ?thesis
    using assms
    by (auto simp: file_id_of_def split_def getitem_def split: sum.splits if_splits)
qed

lemma download_file_id_fails:
  assumes "file_id_of link = Inl e"
    and "stdout_write E (out s) (''Error al descargar '' @ name @ '': '' @ exn_message e) = None"
  shows "download E name link folder s =
       (emit (Print (''Error al descargar '' @ name @ '': '' @ exn_message e)) s, Inr ''Fallido'')"
proof -
  have "is_exception e" using file_id_error[OF assms(1)] by simp
  then show ?thesis using assms by (simp add: download_def download_try_def print_line_def)
qed

lemma download_transfer_fails:
  assumes "file_id_of link = Inr fid"
    and "stdout_write E (out s) (''Inicio de la descarga: '' @ name) = None"
    and "gdown_download E (out s @ [Print (''Inicio de la descarga: '' @ name)])
           (''https://drive.google.com/uc?id='' @ fid) (path_join folder (name @ ''.pdf'')) = Some e"
    and "is_exception e"
    and "stdout_write E
           (out s @ [Print (''Inicio de la descarga: '' @ name),
                     GdownDownload (''https://drive.google.com/uc?id='' @ fid)
                       (path_join folder (name @ ''.pdf''))])
           (''Error al descargar '' @ name @ '': '' @ exn_message e) = None"
  shows "download E name link folder s =
       (emit (Print (''Error al descargar '' @ name @ '': '' @ exn_message e))
          (emit (GdownDownload (''https://drive.google.com/uc?id='' @ fid)
                   (path_join folder (name @ ''.pdf'')))
             (emit (Print (''Inicio de la descarga: '' @ name)) s)), Inr ''Fallido'')"
  using assms by (simp add: download_def download_try_def print_line_def Let_def emit_def)

lemma download_signal_leaves:
  assumes "file_id_of link = Inr fid"
    and "stdout_write E (out s) (''Inicio de la descarga: '' @ name) = None"
    and "gdown_download E (out s @ [Print (''Inicio de la descarga: '' @ name)])
           (''https://drive.google.com/uc?id='' @ fid) (path_join folder (name @ ''.pdf'')) = Some e"
    and "\<not> is_exception e"
  shows "download E name link folder s =
       (emit (GdownDownload (''https://drive.google.com/uc?id='' @ fid)
                (path_join folder (name @ ''.pdf'')))
          (emit (Print (''Inicio de la descarga: '' @ name)) s), Inl e)"
  using assms by (simp add: download_def download_try_def print_line_def Let_def emit_def)

lemma download_transfer_completes:
  assumes "file_id_of link = Inr fid"
    and "stdout_write E (out s) (''Inicio de la descarga: '' @ name) = None"
    and "gdown_download E (out s @ [Print (''Inicio de la descarga: '' @ name)])
           (''https://drive.google.com/uc?id='' @ fid) (path_join folder (name @ ''.pdf'')) = None"
    and "stdout_write E
           (out s @ [Print (''Inicio de la descarga: '' @ name),
                     GdownDownload (''https://drive.google.com/uc?id='' @ fid)
                       (path_join folder (name @ ''.pdf''))])
           (''Fin de la descarga: '' @ path_join folder (name @ ''.pdf'')) = None"
  shows "download E name link folder s =
       (emit (Print (''Fin de la descarga: '' @ path_join folder (name @ ''.pdf'')))
          (emit (GdownDownload (''https://drive.google.com/uc?id='' @ fid)
                   (path_join folder (name @ ''.pdf'')))
             (emit (Print (''Inicio de la descarga: '' @ name)) s)), Inr ''Exitoso'')"
  using assms by (simp add: download_def download_try_def print_line_def Let_def emit_def)

lemma download_handler_print_raises:
  assumes "download_try E name link folder s = (s', Inl e)" and "is_exception e"
    and "stdout_write E (out s') (''Error al descargar '' @ name @ '': '' @ exn_message e) = Some e'"
  shows "download E name link folder s =
       (emit (Print (''Error al descargar '' @ name @ '': '' @ exn_message e)) s', Inl e')"
  using assms by (simp add: download_def print_line_def)

lemma download_loop_after_download:
  assumes "get_strategy s factory link = Some GoogleDriveDownloader"
    and "download E name link folder s = (s1, Inr status)"
  shows "download_loop E factory folder delay ((name, link) # links) logger s =
     (if delay < 0
      then (emit (Sleep delay) s1, Inl (Exn ValueError ''sleep length must be non-negative''))
      else download_loop E factory folder delay links (update logger name status)
             (emit (Sleep delay) s1))"
  using assms by (intro download_loop_continues) simp

lemma download_loop_download_raises:
  assumes "get_strategy s factory link = Some GoogleDriveDownloader"
    and "download E name link folder s = (s1, Inl e)"
  shows "download_loop E factory folder delay ((name, link) # links) logger s = (s1, Inl e)"
  using assms by (intro download_loop_raises) simp

lemma file_id_example: "file_id_of ''https://drive.google.com/file/d/ABC123/view'' = Inr ''ABC123''"
  by code_simp

lemma file_id_missing:
  "file_id_of ''https://drive.google.com/file'' = Inl (Exn IndexError ''list index out of range'')"
  by code_simp

lemma path_join_example: "path_join ''pdfs'' (''Bulletin 1'' @ ''.pdf'') = ''pdfs/Bulletin 1.pdf''"
  by (simp add: path_join_def suffix_to_prefix)

lemma get_pdf_links_out:
  "\<exists>added. out (fst (get_pdf_links E url s)) = out s @ added \<and> filter writes_files added = []"
proof -
  let ?f = "(case requests_get E (out s) url 10 of
               Inl e \<Rightarrow> Inl e
             | Inr r \<Rightarrow> (case raise_for_status r of Some e \<Rightarrow> Inl e | None \<Rightarrow> Inr r))"
  show ?thesis
  proof (cases ?f)
    case (Inl e)
    show ?thesis
    proof (cases "is_request_exception e")
      case True
      have "out (fst (get_pdf_links E url s)) = out s @ [HttpGet url 10,
          Print (''Error al acceder a la p'' @ [CHR 0xC3, CHR 0xA1] @ ''gina: '' @ exn_message e)]"
        using Inl True by (simp add: get_pdf_links_def Let_def emit_def)
      then show ?thesis by simp
    next
      case False
      have "out (fst (get_pdf_links E url s)) = out s @ [HttpGet url 10]"
        using Inl False by (simp add: get_pdf_links_def Let_def emit_def)
      then show ?thesis by simp
    qed
  next
    case (Inr r)
    have "out (fst (get_pdf_links E url s)) = out s @ [HttpGet url 10]"
      using Inr by (simp add: get_pdf_links_def Let_def emit_def)
    then show ?thesis by simp
  qed
qed

section \<open>The table of the logger\<close>

lemma results_foldl_update:
  "results (foldl (\<lambda>lg (name, status). update lg name status) lg calls)
     = results lg @ map (\<lambda>(name, status). [(''Nombre'', name), (''Estado'', status)]) calls"
  by (induction calls arbitrary: lg) (auto simp: update_def)

lemma results_logger_after:
  "results (logger_after calls)
     = map (\<lambda>(name, status). [(''Nombre'', name), (''Estado'', status)]) calls"
  by (simp add: logger_after_def results_foldl_update DownloadLogger_init_def)

lemma ordered_keys_seen:
  "ordered_keys [''Nombre'', ''Estado'']
     (concat (map (map fst) (map (\<lambda>(name, status). [(''Nombre'', name), (''Estado'', status)]) calls)))
   = [''Nombre'', ''Estado'']"
  by (induction calls) auto

lemma columns_of_records:
  "columns (DataFrame (map (\<lambda>(name, status). [(''Nombre'', name), (''Estado'', status)]) calls))
     = (if calls = [] then [] else [''Nombre'', ''Estado''])"
proof (cases calls)
  case Nil
  then show ?thesis by (simp add: DataFrame_def)
next
  case (Cons c cs)
  obtain n st where c: "c = (n, st)" by (cases c)
  show ?thesis using Cons c ordered_keys_seen[of cs] by (simp add: DataFrame_def)
qed

lemma rows_of_records:
  "map (map (\<lambda>v. case v of None \<Rightarrow> [] | Some x \<Rightarrow> x))
     (rows (DataFrame (map (\<lambda>(name, status). [(''Nombre'', name), (''Estado'', status)]) calls)))
   = map (\<lambda>(name, status). [name, status]) calls"
proof (cases "calls = []")
  case True
  then show ?thesis by (simp add: DataFrame_def)
next
  case False
  have "ordered_keys [] (concat (map (map fst)
          (map (\<lambda>(name, status). [(''Nombre'', name), (''Estado'', status)]) calls)))
        = [''Nombre'', ''Estado'']"
    using columns_of_records[of calls] False by (simp add: DataFrame_def Let_def)
  then show ?thesis by (auto simp: DataFrame_def Let_def)
qed

section \<open>Searching the document\<close>

lemma search_gen_all: "search_gen m None res gen = res @ filter m gen"
  by (induction gen arbitrary: res) auto

lemma search_gen_first: "search_gen m (Some 1) [] gen = take 1 (filter m gen)"
  by (induction gen) auto

lemma find_all_filter: "find_all m n = filter m (descendants n)"
  by (simp add: find_all_def search_gen_all)

lemma find_filter:
  "find m n = (case filter m (descendants n) of [] \<Rightarrow> None | r # rs \<Rightarrow> Some r)"
  unfolding find_def search_gen_first by (cases "filter m (descendants n)") simp_all

lemma find_first:
  assumes "descendants cell = pre @ a # post" and "m a" and "\<forall>x \<in> set pre. \<not> m x"
  shows "find m cell = Some a"
proof -
  have "filter m (pre @ a # post) = a # filter m post"
    using assms(2,3) by simp
  then show ?thesis using assms(1) by (simp add: find_filter)
qed

lemma find_none:
  assumes "\<forall>x \<in> set (descendants cell). \<not> m x"
  shows "find m cell = None"
proof -
  have "filter m (descendants cell) = []" using assms by simp
  then show ?thesis by (simp add: find_filter)
qed

lemma find_some_matches: "find m n = Some a \<Longrightarrow> m a"
proof -
  assume f: "find m n = Some a"
  then obtain rs where "filter m (descendants n) = a # rs"
    by (cases "filter m (descendants n)") (auto simp: find_filter)
  then have "a \<in> set (filter m (descendants n))" by simp
  then show "m a" by simp
qed

lemma rows_loop_skip:
  assumes "2 < length (find_all (is_tag ''td'') tr) \<longrightarrow>
             find a_href (find_all (is_tag ''td'') tr ! 2) = None"
  shows "rows_loop (tr # trs) links = rows_loop trs links"
  using assms by (simp add: Let_def)

lemma rows_loop_emit:
  assumes "2 < length (find_all (is_tag ''td'') tr)"
    and "find a_href (find_all (is_tag ''td'') tr ! 2) = Some a"
    and "map_of (node_attrs a) ''href'' = Some href"
  shows "rows_loop (tr # trs) links =
           rows_loop trs (links @ [(get_text_strip (find_all (is_tag ''td'') tr ! 0), href)])"
  using assms by (simp add: Let_def tag_getitem_def)

lemma rows_loop_row_link:
  "rows_loop (tr # trs) links =
     rows_loop trs (links @ (case row_link tr of None \<Rightarrow> [] | Some l \<Rightarrow> [l]))"
proof -
  let ?tds = "filter (is_tag ''td'') (descendants tr)"
  have fa: "find_all (is_tag ''td'') tr = ?tds" by (rule find_all_filter)
  show ?thesis
  proof (cases "2 < length ?tds")
    case False
    then have "row_link tr = None"
      by (cases ?tds rule: list.exhaust[case_product list.exhaust[case_product list.exhaust]])
         (auto simp: row_link_def split: list.splits)
    moreover have "rows_loop (tr # trs) links = rows_loop trs links"
      using False fa by (intro rows_loop_skip) simp
    ultimately show ?thesis by simp
  next
    case True
    then obtain c0 c1 c2 cells where tds: "?tds = c0 # c1 # c2 # cells"
      by (cases ?tds; cases "tl ?tds"; cases "tl (tl ?tds)") auto
    show ?thesis
    proof (cases "filter a_href (descendants c2)")
      case Nil
      then have "find a_href c2 = None" by (simp add: find_filter)
      then have "rows_loop (tr # trs) links = rows_loop trs links"
        using fa tds by (intro rows_loop_skip) simp
      moreover have "row_link tr = None" using tds Nil by (simp add: row_link_def)
      ultimately show ?thesis by simp
    next
      case (Cons a as)
      then have f: "find a_href c2 = Some a" by (simp add: find_filter)
      then have "a_href a" by (rule find_some_matches)
      then obtain href where h: "map_of (node_attrs a) ''href'' = Some href"
        by (auto simp: a_href_def)
      have "rows_loop (tr # trs) links = rows_loop trs (links @ [(get_text_strip c0, href)])"
        using rows_loop_emit[of tr a href trs links] fa tds f h by simp
      moreover have "row_link tr = Some (get_text_strip c0, href)"
        using tds Cons h by (simp add: row_link_def)
      ultimately show ?thesis by simp
    qed
  qed
qed

lemma rows_loop_map_filter:
  "rows_loop trs links = Inr (links @ List.map_filter row_link trs)"
proof (induction trs arbitrary: links)
  case Nil
  then show ?case by (simp add: List.map_filter_simps)
next
  case (Cons tr trs)
  show ?case
    unfolding rows_loop_row_link Cons.IH
    by (cases "row_link tr") (simp_all add: List.map_filter_simps)
qed





section \<open>The extracted links\<close>




section \<open>The file identifier of a Drive link\<close>

text \<open>
  C2. For every link that contains \<^verbatim>\<open>/d/\<close>, the Drive strategy derives as file identifier
  the part of the link between the first occurrence of \<^verbatim>\<open>/d/\<close> and the next \<^verbatim>\<open>/\<close> after
  it, or the end of the link when no \<^verbatim>\<open>/\<close> follows. The occurrence that starts after
  \<open>pre\<close> is the first one when \<^verbatim>\<open>/d/\<close> does not occur in \<open>pre\<close> followed by \<^verbatim>\<open>/d\<close>;
  such a first occurrence exists, and the identifier is what follows it up to the next
  \<^verbatim>\<open>/\<close>.
\<close>

theorem drive_file_id_between:
  assumes "str_in ''/d/'' link"
  shows "(\<exists>pre suf. link = pre @ ''/d/'' @ suf \<and> \<not> str_in ''/d/'' (pre @ ''/d''))
       \<and> (\<forall>pre suf. link = pre @ ''/d/'' @ suf \<and> \<not> str_in ''/d/'' (pre @ ''/d'')
            \<longrightarrow> file_id_of link = Inr (takeWhile (\<lambda>c. c \<noteq> CHR ''/'') suf))"
proof
  show "\<exists>pre suf. link = pre @ ''/d/'' @ suf \<and> \<not> str_in ''/d/'' (pre @ ''/d'')"
    using first_occurrence_exists[of "''/d/''" link] assms by simp
  show "\<forall>pre suf. link = pre @ ''/d/'' @ suf \<and> \<not> str_in ''/d/'' (pre @ ''/d'')
            \<longrightarrow> file_id_of link = Inr (takeWhile (\<lambda>c. c \<noteq> CHR ''/'') suf)"
    using file_id_of_first by blast
qed

theorem drive_file_id_between_witness:
  "str_in ''/d/'' ''https://drive.google.com/file/d/ABC123/view''
   \<and> \<not> str_in ''/d/'' (''https://drive.google.com/file'' @ ''/d'')
   \<and> file_id_of ''https://drive.google.com/file/d/ABC123/view'' = Inr ''ABC123''"
proof -
  have a: "str_in ''/d/'' ''https://drive.google.com/file/d/ABC123/view''" by code_simp
  have c: "\<not> str_in ''/d/'' (''https://drive.google.com/file'' @ ''/d'')" by code_simp
  have "file_id_of (''https://drive.google.com/file'' @ ''/d/'' @ ''ABC123/view'')
          = Inr (takeWhile (\<lambda>c. c \<noteq> CHR ''/'') ''ABC123/view'')"
    using drive_file_id_between[OF a, THEN conjunct2, rule_format,
            of "''https://drive.google.com/file''" "''ABC123/view''"] c
    by simp
  then show ?thesis using a c by simp
qed

section \<open>Outcomes of the Drive strategy\<close>

text \<open>
  C3, as the code has it. In \<^verbatim>\<open>GoogleDriveDownloader.download\<close>, an exception of the
  identifier extraction or of the transfer that is an instance of \<^verbatim>\<open>Exception\<close> is
  caught: once the diagnostic is printed the call returns \<^verbatim>\<open>Fallido\<close>. An exception of
  the transfer that is no instance of \<^verbatim>\<open>Exception\<close> is not caught and leaves the call.
  When the transfer completes and the closing line is printed, the call returns
  \<^verbatim>\<open>Exitoso\<close>. Whenever the call returns a status, the loop of \<^verbatim>\<open>download_pdfs\<close> records
  it under the name and goes on with the remaining links.
\<close>

theorem drive_download_outcomes:
  "(\<forall>e. file_id_of link = Inl e
        \<and> stdout_write E (out s) (''Error al descargar '' @ name @ '': '' @ exn_message e) = None \<longrightarrow>
       download E name link folder s =
         (emit (Print (''Error al descargar '' @ name @ '': '' @ exn_message e)) s, Inr ''Fallido''))
   \<and> (\<forall>fid e. file_id_of link = Inr fid
        \<and> stdout_write E (out s) (''Inicio de la descarga: '' @ name) = None
        \<and> gdown_download E (out s @ [Print (''Inicio de la descarga: '' @ name)])
             (''https://drive.google.com/uc?id='' @ fid) (path_join folder (name @ ''.pdf'')) = Some e
        \<and> is_exception e
        \<and> stdout_write E
             (out s @ [Print (''Inicio de la descarga: '' @ name),
                       GdownDownload (''https://drive.google.com/uc?id='' @ fid)
                         (path_join folder (name @ ''.pdf''))])
             (''Error al descargar '' @ name @ '': '' @ exn_message e) = None \<longrightarrow>
       download E name link folder s =
         (emit (Print (''Error al descargar '' @ name @ '': '' @ exn_message e))
            (emit (GdownDownload (''https://drive.google.com/uc?id='' @ fid)
                     (path_join folder (name @ ''.pdf'')))
               (emit (Print (''Inicio de la descarga: '' @ name)) s)), Inr ''Fallido''))
   \<and> (\<forall>fid e. file_id_of link = Inr fid
        \<and> stdout_write E (out s) (''Inicio de la descarga: '' @ name) = None
        \<and> gdown_download E (out s @ [Print (''Inicio de la descarga: '' @ name)])
             (''https://drive.google.com/uc?id='' @ fid) (path_join folder (name @ ''.pdf'')) = Some e
        \<and> \<not> is_exception e \<longrightarrow>
       download E name link folder s =
         (emit (GdownDownload (''https://drive.google.com/uc?id='' @ fid)
                  (path_join folder (name @ ''.pdf'')))
            (emit (Print (''Inicio de la descarga: '' @ name)) s), Inl e))
   \<and> (\<forall>fid. file_id_of link = Inr fid
        \<and> stdout_write E (out s) (''Inicio de la descarga: '' @ name) = None
        \<and> gdown_download E (out s @ [Print (''Inicio de la descarga: '' @ name)])
             (''https://drive.google.com/uc?id='' @ fid) (path_join folder (name @ ''.pdf'')) = None
        \<and> stdout_write E
             (out s @ [Print (''Inicio de la descarga: '' @ name),
                       GdownDownload (''https://drive.google.com/uc?id='' @ fid)
                         (path_join folder (name @ ''.pdf''))])
             (''Fin de la descarga: '' @ path_join folder (name @ ''.pdf'')) = None \<longrightarrow>
       download E name link folder s =
         (emit (Print (''Fin de la descarga: '' @ path_join folder (name @ ''.pdf'')))
            (emit (GdownDownload (''https://drive.google.com/uc?id='' @ fid)
                     (path_join folder (name @ ''.pdf'')))
               (emit (Print (''Inicio de la descarga: '' @ name)) s)), Inr ''Exitoso''))
   \<and> (\<forall>factory delay links logger s1 status.
        get_strategy s factory link = Some GoogleDriveDownloader
        \<and> download E name link folder s = (s1, Inr status) \<longrightarrow>
        download_loop E factory folder delay ((name, link) # links) logger s =
          (if delay < 0
           then (emit (Sleep delay) s1, Inl (Exn ValueError ''sleep length must be non-negative''))
           else download_loop E factory folder delay links (update logger name status)
                  (emit (Sleep delay) s1)))"
proof (intro conjI allI impI)
  fix e
  assume "file_id_of link = Inl e
        \<and> stdout_write E (out s) (''Error al descargar '' @ name @ '': '' @ exn_message e) = None"
  then show "download E name link folder s =
         (emit (Print (''Error al descargar '' @ name @ '': '' @ exn_message e)) s, Inr ''Fallido'')"
    using download_file_id_fails by blast
next
  fix fid e
  assume "file_id_of link = Inr fid
        \<and> stdout_write E (out s) (''Inicio de la descarga: '' @ name) = None
        \<and> gdown_download E (out s @ [Print (''Inicio de la descarga: '' @ name)])
             (''https://drive.google.com/uc?id='' @ fid) (path_join folder (name @ ''.pdf'')) = Some e
        \<and> is_exception e
        \<and> stdout_write E
             (out s @ [Print (''Inicio de la descarga: '' @ name),
                       GdownDownload (''https://drive.google.com/uc?id='' @ fid)
                         (path_join folder (name @ ''.pdf''))])
             (''Error al descargar '' @ name @ '': '' @ exn_message e) = None"
  then show "download E name link folder s =
         (emit (Print (''Error al descargar '' @ name @ '': '' @ exn_message e))
            (emit (GdownDownload (''https://drive.google.com/uc?id='' @ fid)
                     (path_join folder (name @ ''.pdf'')))
               (emit (Print (''Inicio de la descarga: '' @ name)) s)), Inr ''Fallido'')"
    using download_transfer_fails by blast
next
  fix fid e
  assume "file_id_of link = Inr fid
        \<and> stdout_write E (out s) (''Inicio de la descarga: '' @ name) = None
        \<and> gdown_download E (out s @ [Print (''Inicio de la descarga: '' @ name)])
             (''https://drive.google.com/uc?id='' @ fid) (path_join folder (name @ ''.pdf'')) = Some e
        \<and> \<not> is_exception e"
  then show "download E name link folder s =
         (emit (GdownDownload (''https://drive.google.com/uc?id='' @ fid)
                  (path_join folder (name @ ''.pdf'')))
            (emit (Print (''Inicio de la descarga: '' @ name)) s), Inl e)"
    using download_signal_leaves by blast
next
  fix fid
  assume "file_id_of link = Inr fid
        \<and> stdout_write E (out s) (''Inicio de la descarga: '' @ name) = None
        \<and> gdown_download E (out s @ [Print (''Inicio de la descarga: '' @ name)])
             (''https://drive.google.com/uc?id='' @ fid) (path_join folder (name @ ''.pdf'')) = None
        \<and> stdout_write E
             (out s @ [Print (''Inicio de la descarga: '' @ name),
                       GdownDownload (''https://drive.google.com/uc?id='' @ fid)
                         (path_join folder (name @ ''.pdf''))])
             (''Fin de la descarga: '' @ path_join folder (name @ ''.pdf'')) = None"
  then show "download E name link folder s =
         (emit (Print (''Fin de la descarga: '' @ path_join folder (name @ ''.pdf'')))
            (emit (GdownDownload (''https://drive.google.com/uc?id='' @ fid)
                     (path_join folder (name @ ''.pdf'')))
               (emit (Print (''Inicio de la descarga: '' @ name)) s)), Inr ''Exitoso'')"
    using download_transfer_completes by blast
next
  fix factory :: nat and delay :: int and links :: "(string \<times> string) list"
    and logger s1 status
  assume "get_strategy s factory link = Some GoogleDriveDownloader
        \<and> download E name link folder s = (s1, Inr status)"
  then show "download_loop E factory folder delay ((name, link) # links) logger s =
          (if delay < 0
           then (emit (Sleep delay) s1, Inl (Exn ValueError ''sleep length must be non-negative''))
           else download_loop E factory folder delay links (update logger name status)
                  (emit (Sleep delay) s1))"
    using download_loop_after_download by blast
qed

theorem drive_download_outcomes_witness:
  "download (page_env 200 (Tag ''[document]'' [] []) (\<lambda>u. None)) ''Bulletin 1''
      ''https://drive.google.com/file/d/ABC123/view'' ''pdfs'' initial_state
   = (emit (Print ''Fin de la descarga: pdfs/Bulletin 1.pdf'')
        (emit (GdownDownload ''https://drive.google.com/uc?id=ABC123'' ''pdfs/Bulletin 1.pdf'')
           (emit (Print ''Inicio de la descarga: Bulletin 1'') initial_state)), Inr ''Exitoso'')
   \<and> download (page_env 200 (Tag ''[document]'' [] []) (\<lambda>u. Some (Exn OSError ''disk full'')))
      ''Bulletin 1'' ''https://drive.google.com/file/d/ABC123/view'' ''pdfs'' initial_state
   = (emit (Print ''Error al descargar Bulletin 1: disk full'')
        (emit (GdownDownload ''https://drive.google.com/uc?id=ABC123'' ''pdfs/Bulletin 1.pdf'')
           (emit (Print ''Inicio de la descarga: Bulletin 1'') initial_state)), Inr ''Fallido'')
   \<and> download offline_env ''Bulletin 1'' ''https://drive.google.com/file'' ''pdfs'' initial_state
   = (emit (Print ''Error al descargar Bulletin 1: list index out of range'') initial_state,
      Inr ''Fallido'')
   \<and> download interrupted_env ''Bulletin 1'' ''https://drive.google.com/file/d/ABC123/view''
        ''pdfs'' initial_state
   = (emit (GdownDownload ''https://drive.google.com/uc?id=ABC123'' ''pdfs/Bulletin 1.pdf'')
        (emit (Print ''Inicio de la descarga: Bulletin 1'') initial_state),
      Inl (Exn KeyboardInterrupt []))"
proof -
  note ok = drive_download_outcomes[of "''https://drive.google.com/file/d/ABC123/view''"
      "page_env 200 (Tag ''[document]'' [] []) (\<lambda>u. None)" initial_state "''Bulletin 1''" "''pdfs''",
      THEN conjunct2, THEN conjunct2, THEN conjunct2, THEN conjunct1, rule_format, of "''ABC123''"]
  note ko = drive_download_outcomes[of "''https://drive.google.com/file/d/ABC123/view''"
      "page_env 200 (Tag ''[document]'' [] []) (\<lambda>u. Some (Exn OSError ''disk full''))"
      initial_state "''Bulletin 1''" "''pdfs''",
      THEN conjunct2, THEN conjunct1, rule_format, of "''ABC123''" "Exn OSError ''disk full''"]
  note bad = drive_download_outcomes[of "''https://drive.google.com/file''" offline_env
      initial_state "''Bulletin 1''" "''pdfs''",
      THEN conjunct1, rule_format, of "Exn IndexError ''list index out of range''"]
  note sig = drive_download_outcomes[of "''https://drive.google.com/file/d/ABC123/view''"
      interrupted_env initial_state "''Bulletin 1''" "''pdfs''",
      THEN conjunct2, THEN conjunct2, THEN conjunct1, rule_format,
      of "''ABC123''" "Exn KeyboardInterrupt []"]
  have a: "download (page_env 200 (Tag ''[document]'' [] []) (\<lambda>u. None)) ''Bulletin 1''
      ''https://drive.google.com/file/d/ABC123/view'' ''pdfs'' initial_state
   = (emit (Print ''Fin de la descarga: pdfs/Bulletin 1.pdf'')
        (emit (GdownDownload ''https://drive.google.com/uc?id=ABC123'' ''pdfs/Bulletin 1.pdf'')
           (emit (Print ''Inicio de la descarga: Bulletin 1'') initial_state)), Inr ''Exitoso'')"
    using ok file_id_example path_join_example by (simp add: page_env_def)
  have b: "download (page_env 200 (Tag ''[document]'' [] []) (\<lambda>u. Some (Exn OSError ''disk full'')))
      ''Bulletin 1'' ''https://drive.google.com/file/d/ABC123/view'' ''pdfs'' initial_state
   = (emit (Print ''Error al descargar Bulletin 1: disk full'')
        (emit (GdownDownload ''https://drive.google.com/uc?id=ABC123'' ''pdfs/Bulletin 1.pdf'')
           (emit (Print ''Inicio de la descarga: Bulletin 1'') initial_state)), Inr ''Fallido'')"
    using ko file_id_example path_join_example by (simp add: page_env_def)
  have c: "download offline_env ''Bulletin 1'' ''https://drive.google.com/file'' ''pdfs'' initial_state
   = (emit (Print ''Error al descargar Bulletin 1: list index out of range'') initial_state,
      Inr ''Fallido'')"
    using bad file_id_missing by (simp add: offline_env_def)
  have d: "download interrupted_env ''Bulletin 1'' ''https://drive.google.com/file/d/ABC123/view''
        ''pdfs'' initial_state
   = (emit (GdownDownload ''https://drive.google.com/uc?id=ABC123'' ''pdfs/Bulletin 1.pdf'')
        (emit (Print ''Inicio de la descarga: Bulletin 1'') initial_state),
      Inl (Exn KeyboardInterrupt []))"
    using sig file_id_example path_join_example by (simp add: interrupted_env_def page_env_def)
  show ?thesis using a b c d by (intro conjI)
qed

text \<open>
  C3 as stated fails. When the transfer is interrupted from the keyboard, the exception
  leaves \<^verbatim>\<open>download\<close>, no status is returned, and the run of \<^verbatim>\<open>main\<close> on the page of
  bulletins ends with that exception. And for a name that the standard output cannot
  encode, the \<^verbatim>\<open>print\<close> of the handler raises in its turn and that exception leaves
  \<^verbatim>\<open>download\<close>.
\<close>

theorem download_propagates_counterexample:
  "snd (download interrupted_env ''Bulletin 1'' ''https://drive.google.com/file/d/ABC123/view''
          ''pdfs'' initial_state) = Inl (Exn KeyboardInterrupt [])
   \<and> snd (main interrupted_env initial_state) = Inl (Exn KeyboardInterrupt [])
   \<and> snd (download strict_stdout_env lone_surrogate
            ''https://drive.google.com/file/d/ABC123/view'' ''pdfs'' initial_state)
       = Inl (surrogate_error ''19'')"
  by code_simp

section \<open>Links without a strategy\<close>

text \<open>
  C4. For every link that contains none of the host substrings registered in the factory
  object, \<^verbatim>\<open>get_strategy\<close> returns \<^verbatim>\<open>None\<close>, and the loop of \<^verbatim>\<open>download_pdfs\<close>
  handles such a link by recording \<^verbatim>\<open>No soportado\<close> under its name and sleeping, with no
  call of a download in between: the only effect of the item is the sleep.
\<close>

theorem unsupported_link_recorded:
  assumes "heap s self = Some obj"
    and "\<forall>source \<in> set (map fst (strategies obj)). \<not> str_in source link"
  shows "get_strategy s self link = None
       \<and> download_loop E self folder delay ((name, link) # links) logger s =
           (if delay < 0
            then (emit (Sleep delay) s, Inl (Exn ValueError ''sleep length must be non-negative''))
            else download_loop E self folder delay links
                   (update logger name ''No soportado'') (emit (Sleep delay) s))"
proof -
  have n: "get_strategy s self link = None"
    using assms get_strategy_items_none[of "strategies obj" link]
    by (simp add: get_strategy_def)
  then show ?thesis by (simp add: Let_def)
qed

theorem unsupported_link_recorded_witness:
  "get_strategy constructed_state 0 ''https://example.com/file.pdf'' = None
   \<and> download_loop offline_env 0 ''pdfs'' 2 [(''Bulletin 1'', ''https://example.com/file.pdf'')]
        DownloadLogger_init constructed_state
     = (emit (Sleep 2) constructed_state,
        Inr \<lparr>results = [[(''Nombre'', ''Bulletin 1''), (''Estado'', ''No soportado'')]]\<rparr>)"
proof -
  have h: "heap constructed_state 0 = Some \<lparr>strategies = default_strategies\<rparr>"
    by (simp add: constructed_state_def)
  have u: "\<forall>source \<in> set (map fst (strategies \<lparr>strategies = default_strategies\<rparr>)).
             \<not> str_in source ''https://example.com/file.pdf''"
    by (simp add: default_strategies_def)
  show ?thesis
    using unsupported_link_recorded[OF h u, of offline_env "''pdfs''" 2 "''Bulletin 1''" "[]" DownloadLogger_init]
    by (simp add: update_def DownloadLogger_init_def)
qed

section \<open>A page that cannot be fetched\<close>



section \<open>The CSV report\<close>

text \<open>
  C6, as the code has it. After the calls \<open>calls\<close> of \<^verbatim>\<open>update\<close>, \<^verbatim>\<open>save_to_csv\<close> writes one
  row per call, in the order of the calls, each row being the name and the status of its
  call. The columns are those of the records: \<^verbatim>\<open>Nombre\<close> and \<^verbatim>\<open>Estado\<close> as soon as there is
  one record, and none at all for no record, since no column is declared anywhere.
\<close>

theorem csv_rows_after_records:
  "csv_effect path (DataFrame (results (logger_after calls)))
     = ToCsv path (if calls = [] then [] else [''Nombre'', ''Estado''])
         (map (\<lambda>(name, status). [name, status]) calls)
   \<and> (\<exists>rest. out (fst (save_to_csv E (logger_after calls) folder s))
         = out s @ csv_effect (path_join folder ''descargas_resultados.csv'')
                     (DataFrame (results (logger_after calls))) # rest)"
proof
  show "csv_effect path (DataFrame (results (logger_after calls)))
     = ToCsv path (if calls = [] then [] else [''Nombre'', ''Estado''])
         (map (\<lambda>(name, status). [name, status]) calls)"
    unfolding csv_effect_def results_logger_after columns_of_records rows_of_records by simp
  show "\<exists>rest. out (fst (save_to_csv E (logger_after calls) folder s))
         = out s @ csv_effect (path_join folder ''descargas_resultados.csv'')
                     (DataFrame (results (logger_after calls))) # rest"
    by (cases "to_csv E (out s) (path_join folder ''descargas_resultados.csv'')")
       (simp_all add: save_to_csv_def Let_def emit_def)
qed

theorem csv_rows_after_records_witness:
  "csv_effect ''pdfs/descargas_resultados.csv''
     (DataFrame (results (logger_after [(''B1'', ''Fallido''), (''B2'', ''Exitoso'')])))
   = ToCsv ''pdfs/descargas_resultados.csv'' [''Nombre'', ''Estado'']
       [[''B1'', ''Fallido''], [''B2'', ''Exitoso'']]"
  using csv_rows_after_records[of "''pdfs/descargas_resultados.csv''"
      "[(''B1'', ''Fallido''), (''B2'', ''Exitoso'')]" offline_env "''pdfs''" initial_state]
  by simp

text \<open>
  C6 as stated fails for \<open>N = 0\<close>: the table written for a new logger has no columns, not
  the two columns \<^verbatim>\<open>Nombre\<close> and \<^verbatim>\<open>Estado\<close>.
\<close>

theorem csv_columns_counterexample:
  "columns (DataFrame (results (logger_after []))) = []
   \<and> columns (DataFrame (results (logger_after []))) \<noteq> [''Nombre'', ''Estado'']
   \<and> csv_effect ''pdfs/descargas_resultados.csv'' (DataFrame (results (logger_after [])))
       = ToCsv ''pdfs/descargas_resultados.csv'' [] []"
  by (simp add: logger_after_def DownloadLogger_init_def DataFrame_def csv_effect_def)

section \<open>No links, no output\<close>

text \<open>
  C7. When \<^verbatim>\<open>get_pdf_links\<close> returns the empty list, \<^verbatim>\<open>main\<close> prints the no-links
  message and returns normally; among the effects of the whole run there is no creation
  of a folder, no download and no CSV report.
\<close>

theorem no_links_no_output:
  assumes "snd (get_pdf_links E main_url s) = Inr []"
  shows "main E s = (emit (Print ''No se encontraron enlaces de descarga.'')
                       (fst (get_pdf_links E main_url s)), Inr ())
       \<and> (\<exists>added. out (fst (main E s)) = out s @ added \<and> filter writes_files added = [])"
proof -
  obtain s1 where g: "get_pdf_links E main_url s = (s1, Inr [])"
    using assms by (cases "get_pdf_links E main_url s") simp
  have m: "main E s = (emit (Print ''No se encontraron enlaces de descarga.'') s1, Inr ())"
    using g by (simp add: main_def)
  obtain added where a: "out s1 = out s @ added" "filter writes_files added = []"
    using get_pdf_links_out[of E main_url s] g by auto
  have "out (fst (main E s)) = out s @ (added @ [Print ''No se encontraron enlaces de descarga.''])"
    using m a by (simp add: emit_def)
  moreover have "filter writes_files (added @ [Print ''No se encontraron enlaces de descarga.'']) = []"
    using a by simp
  ultimately show ?thesis using m g by fastforce
qed

theorem no_links_no_output_witness:
  "snd (get_pdf_links offline_env main_url initial_state) = Inr []
   \<and> snd (main offline_env initial_state) = Inr ()
   \<and> out (fst (main offline_env initial_state))
     = [HttpGet main_url 10,
        Print (''Error al acceder a la p'' @ [CHR 0xC3, CHR 0xA1] @ ''gina: connection refused''),
        Print ''No se encontraron enlaces de descarga.'']"
proof -
  have g: "get_pdf_links offline_env main_url initial_state
     = (emit (Print (''Error al acceder a la p'' @ [CHR 0xC3, CHR 0xA1] @ ''gina: connection refused''))
          (emit (HttpGet main_url 10) initial_state), Inr [])"
    by (simp add: get_pdf_links_def offline_env_def Let_def)
  then have h: "snd (get_pdf_links offline_env main_url initial_state) = Inr []" by simp
  have "main offline_env initial_state
          = (emit (Print ''No se encontraron enlaces de descarga.'')
               (fst (get_pdf_links offline_env main_url initial_state)), Inr ())"
    using no_links_no_output[OF h] by (rule conjunct1)
  then show ?thesis using g h by (simp add: emit_def initial_state_def)
qed

section \<open>The factory is a singleton\<close>

text \<open>
  C8. In every run of the process from its initial state: all constructions of
  \<^verbatim>\<open>DownloadStrategyFactory\<close> return the same instance; at most one object is ever
  allocated, and exactly one once the factory has been constructed, so the dictionary is
  initialised once; after any operations the instance still holds the dictionary that
  \<^verbatim>\<open>__new__\<close> stored; and every lookup on the instance returns what the loop of
  \<^verbatim>\<open>get_strategy\<close> returns on that dictionary, a function of the link alone.
\<close>

theorem factory_singleton:
  assumes "exec_ops ops initial_state = (s, outs)"
  shows "(\<forall>a b. Instance a \<in> set outs \<and> Instance b \<in> set outs \<longrightarrow> a = b)
       \<and> next_addr s \<le> 1
       \<and> (\<forall>a. Instance a \<in> set outs \<longrightarrow>
             next_addr s = 1 \<and> heap s a = Some \<lparr>strategies = default_strategies\<rparr>)
       \<and> (\<forall>i a link. i < length ops \<and> ops ! i = GetStrategy a link \<and> Instance a \<in> set (take i outs)
             \<longrightarrow> outs ! i = Strategy (get_strategy_items default_strategies link))"
proof -
  note g = exec_ops_inv[OF initial_state_inv assms]
  have inv: "factory_inv s" using g by (rule conjunct1)
  have zero: "\<forall>a. Instance a \<in> set outs \<longrightarrow> a = 0 \<and> constructed s"
    using g by (rule conjunct2[THEN conjunct1])
  have look: "\<forall>i a link. i < length ops \<and> ops ! i = GetStrategy a link \<and> Instance a \<in> set (take i outs)
             \<longrightarrow> outs ! i = Strategy (get_strategy_items default_strategies link)"
    using g by (rule conjunct2[THEN conjunct2])
  have one: "\<forall>a b. Instance a \<in> set outs \<and> Instance b \<in> set outs \<longrightarrow> a = b"
  proof (intro allI impI)
    fix a b assume "Instance a \<in> set outs \<and> Instance b \<in> set outs"
    then have "a = 0" "b = 0" using zero by blast+
    then show "a = b" by simp
  qed
  have le: "next_addr s \<le> 1" using inv by (auto simp: factory_inv_def constructed_def)
  have obj: "\<forall>a. Instance a \<in> set outs \<longrightarrow>
             next_addr s = 1 \<and> heap s a = Some \<lparr>strategies = default_strategies\<rparr>"
  proof (intro allI impI)
    fix a assume "Instance a \<in> set outs"
    then have "a = 0" "constructed s" using zero by blast+
    then show "next_addr s = 1 \<and> heap s a = Some \<lparr>strategies = default_strategies\<rparr>"
      by (simp add: constructed_def)
  qed
  show ?thesis using one le obj look by (intro conjI)
qed

theorem factory_singleton_witness:
  "exec_ops [Construct, GetStrategy 0 ''drive.google.com/d/A'', Construct,
             GetStrategy 0 ''example.com/x'']
     initial_state
   = (\<lparr>out = [], cls_instance = Some 0,
        heap = [0 \<mapsto> \<lparr>strategies = default_strategies\<rparr>], next_addr = 1\<rparr>,
      [Instance 0, Strategy (Some GoogleDriveDownloader), Instance 0, Strategy None])
   \<and> get_strategy_items default_strategies ''example.com/x'' = None
   \<and> get_strategy_items default_strategies ''drive.google.com/d/A'' = Some GoogleDriveDownloader"
proof -
  note t = factory_singleton[OF demo_run]
  have l: "\<forall>i a link. i < length [Construct, GetStrategy 0 ''drive.google.com/d/A'', Construct,
             GetStrategy 0 ''example.com/x''] \<and>
        [Construct, GetStrategy 0 ''drive.google.com/d/A'', Construct,
             GetStrategy 0 ''example.com/x''] ! i = GetStrategy a link \<and>
        Instance a \<in> set (take i [Instance 0, Strategy (Some GoogleDriveDownloader), Instance 0, Strategy None])
        \<longrightarrow> [Instance 0, Strategy (Some GoogleDriveDownloader), Instance 0, Strategy None] ! i
            = Strategy (get_strategy_items default_strategies link)"
    using t by (rule conjunct2[THEN conjunct2, THEN conjunct2])
  have a: "get_strategy_items default_strategies ''example.com/x'' = None"
    using l[rule_format, of 3 0 "''example.com/x''"] by simp
  have b: "get_strategy_items default_strategies ''drive.google.com/d/A'' = Some GoogleDriveDownloader"
    using l[rule_format, of 1 0 "''drive.google.com/d/A''"] by simp
  show ?thesis using demo_run a b by (intro conjI)
qed

section \<open>Dispatch by substring\<close>

text \<open>
  C9. For every link that contains \<^verbatim>\<open>drive.google.com\<close> anywhere, \<^verbatim>\<open>get_strategy\<close> on the
  constructed factory returns the Drive strategy: whatever stands before and after the
  substring, in the host or not.
\<close>

theorem drive_substring_dispatch:
  assumes "factory_inv s" and "factory_new s = (s', self)"
  shows "get_strategy s' self (p @ ''drive.google.com'' @ q) = Some GoogleDriveDownloader"
proof -
  have c: "constructed s'" and z: "self = 0"
    using factory_new_constructed[OF assms] by simp_all
  have "str_in ''drive.google.com'' (p @ ''drive.google.com'' @ q)"
    unfolding str_in_iff by blast
  then have "get_strategy_items default_strategies (p @ ''drive.google.com'' @ q)
               = Some GoogleDriveDownloader"
    by (simp add: default_strategies_def)
  then show ?thesis using get_strategy_constructed[OF c] z by simp
qed

theorem drive_substring_dispatch_witness:
  "factory_inv initial_state
   \<and> factory_new initial_state = (constructed_state, 0)
   \<and> get_strategy constructed_state 0 ''http://example.com/?u=drive.google.com''
       = Some GoogleDriveDownloader"
proof -
  have f: "factory_new initial_state = (constructed_state, 0)"
    by (simp add: factory_new_def initial_state_def constructed_state_def)
  have "get_strategy constructed_state 0 (''http://example.com/?u='' @ ''drive.google.com'' @ [])
       = Some GoogleDriveDownloader"
    by (rule drive_substring_dispatch[OF initial_state_inv f])
  then show ?thesis using initial_state_inv f by simp
qed

section \<open>Anchors without a target\<close>

text \<open>
  C10. In the third cell of a row, the search is for the first \<^verbatim>\<open>a\<close> tag that has an
  \<^verbatim>\<open>href\<close>: tags before it, anchors without \<^verbatim>\<open>href\<close> among them, do not stop the
  search. When every anchor of the cell lacks the \<^verbatim>\<open>href\<close>, the search finds nothing
  and the loop returns what it had collected followed by the links of the later rows,
  with nothing for this row. Otherwise the loop returns, between the two, the pair of
  the text of the first cell and the \<^verbatim>\<open>href\<close> of that first tag.
\<close>

theorem href_anchor_search:
  "(\<forall>pre a post.
      descendants cell = pre @ a # post \<and> a_href a
      \<and> (\<forall>x \<in> set pre. is_tag ''a'' x \<longrightarrow> map_of (node_attrs x) ''href'' = None)
      \<longrightarrow> find a_href cell = Some a)
   \<and> ((\<forall>x \<in> set (descendants cell). is_tag ''a'' x \<longrightarrow> map_of (node_attrs x) ''href'' = None)
      \<longrightarrow> find a_href cell = None)
   \<and> (\<forall>tr trs links.
        2 < length (find_all (is_tag ''td'') tr) \<and> find_all (is_tag ''td'') tr ! 2 = cell
        \<and> (\<forall>x \<in> set (descendants cell). is_tag ''a'' x \<longrightarrow> map_of (node_attrs x) ''href'' = None)
        \<longrightarrow> rows_loop (tr # trs) links = Inr (links @ List.map_filter row_link trs))
   \<and> (\<forall>tr trs links pre a post href.
        2 < length (find_all (is_tag ''td'') tr) \<and> find_all (is_tag ''td'') tr ! 2 = cell
        \<and> descendants cell = pre @ a # post
        \<and> is_tag ''a'' a \<and> map_of (node_attrs a) ''href'' = Some href
        \<and> (\<forall>x \<in> set pre. is_tag ''a'' x \<longrightarrow> map_of (node_attrs x) ''href'' = None)
        \<longrightarrow> rows_loop (tr # trs) links =
              Inr (links @ (get_text_strip (find_all (is_tag ''td'') tr ! 0), href)
                           # List.map_filter row_link trs))"
proof (intro conjI allI impI)
  fix pre a post
  assume h: "descendants cell = pre @ a # post \<and> a_href a
      \<and> (\<forall>x \<in> set pre. is_tag ''a'' x \<longrightarrow> map_of (node_attrs x) ''href'' = None)"
  then have "\<forall>x \<in> set pre. \<not> a_href x" by (simp add: a_href_def)
  then show "find a_href cell = Some a" using h find_first[of cell pre a post a_href] by simp
next
  assume "\<forall>x \<in> set (descendants cell). is_tag ''a'' x \<longrightarrow> map_of (node_attrs x) ''href'' = None"
  then have "\<forall>x \<in> set (descendants cell). \<not> a_href x" by (simp add: a_href_def)
  then show "find a_href cell = None" by (rule find_none)
next
  fix tr trs links
  assume h: "2 < length (find_all (is_tag ''td'') tr) \<and> find_all (is_tag ''td'') tr ! 2 = cell
        \<and> (\<forall>x \<in> set (descendants cell). is_tag ''a'' x \<longrightarrow> map_of (node_attrs x) ''href'' = None)"
  then have "\<forall>x \<in> set (descendants cell). \<not> a_href x" by (simp add: a_href_def)
  then have "find a_href cell = None" by (rule find_none)
  then have "rows_loop (tr # trs) links = rows_loop trs links"
    using h by (intro rows_loop_skip) simp
  then show "rows_loop (tr # trs) links = Inr (links @ List.map_filter row_link trs)"
    by (simp add: rows_loop_map_filter)
next
  fix tr trs links pre a post href
  assume h: "2 < length (find_all (is_tag ''td'') tr) \<and> find_all (is_tag ''td'') tr ! 2 = cell
        \<and> descendants cell = pre @ a # post
        \<and> is_tag ''a'' a \<and> map_of (node_attrs a) ''href'' = Some href
        \<and> (\<forall>x \<in> set pre. is_tag ''a'' x \<longrightarrow> map_of (node_attrs x) ''href'' = None)"
  then have "\<forall>x \<in> set pre. \<not> a_href x" and "a_href a" by (simp_all add: a_href_def)
  then have "find a_href cell = Some a" using h find_first[of cell pre a post a_href] by simp
  then have "rows_loop (tr # trs) links =
              rows_loop trs (links @ [(get_text_strip (find_all (is_tag ''td'') tr ! 0), href)])"
    using h rows_loop_emit[of tr a href trs links] by simp
  then show "rows_loop (tr # trs) links =
              Inr (links @ (get_text_strip (find_all (is_tag ''td'') tr ! 0), href)
                           # List.map_filter row_link trs)"
    by (simp add: rows_loop_map_filter)
qed

theorem href_anchor_search_witness:
  "find a_href linked_cell
     = Some (Tag ''a'' [(''href'', ''https://drive.google.com/file/d/ABC123/view'')]
               [Str NavigableString ''PDF''])
   \<and> find a_href unlinked_cell = None
   \<and> rows_loop [unlinked_row] [(''Bulletin 0'', ''u'')] = Inr [(''Bulletin 0'', ''u'')]
   \<and> rows_loop [linked_row, unlinked_row] [(''Bulletin 0'', ''u'')]
       = Inr [(''Bulletin 0'', ''u''),
              (''Bulletin 1'', ''https://drive.google.com/file/d/ABC123/view'')]"
proof -
  let ?a = "Tag ''a'' [(''href'', ''https://drive.google.com/file/d/ABC123/view'')]
              [Str NavigableString ''PDF'']"
  let ?pre = "[Tag ''a'' [] [Str NavigableString ''top''], Str NavigableString ''top'']"
  have d: "descendants linked_cell = ?pre @ ?a # [Str NavigableString ''PDF'']"
    by (simp add: linked_cell_def)
  have a: "a_href ?a" by (simp add: a_href_def)
  have ia: "is_tag ''a'' ?a"
    and ha: "map_of (node_attrs ?a) ''href'' = Some ''https://drive.google.com/file/d/ABC123/view''"
    by simp_all
  have p: "\<forall>x \<in> set ?pre. is_tag ''a'' x \<longrightarrow> map_of (node_attrs x) ''href'' = None"
    by simp
  have n: "\<forall>x \<in> set (descendants unlinked_cell).
             is_tag ''a'' x \<longrightarrow> map_of (node_attrs x) ''href'' = None"
    by (simp add: unlinked_cell_def)
  have l3: "2 < length (find_all (is_tag ''td'') linked_row)"
    and c3: "find_all (is_tag ''td'') linked_row ! 2 = linked_cell"
    and u3: "2 < length (find_all (is_tag ''td'') unlinked_row)"
    and v3: "find_all (is_tag ''td'') unlinked_row ! 2 = unlinked_cell"
    by code_simp+
  have nm: "get_text_strip (find_all (is_tag ''td'') linked_row ! 0) = ''Bulletin 1''"
    by code_simp
  have rest: "List.map_filter row_link [unlinked_row] = []"
    and none: "List.map_filter row_link [] = []"
    by code_simp+
  have one: "find a_href linked_cell = Some ?a"
    using href_anchor_search[of linked_cell, THEN conjunct1] d a p by blast
  have two: "find a_href unlinked_cell = None"
    using href_anchor_search[of unlinked_cell, THEN conjunct2, THEN conjunct1] n by blast
  have "rows_loop (unlinked_row # []) [(''Bulletin 0'', ''u'')]
          = Inr ([(''Bulletin 0'', ''u'')] @ List.map_filter row_link [])"
    using href_anchor_search[of unlinked_cell, THEN conjunct2, THEN conjunct2, THEN conjunct1]
      u3 v3 n by blast
  then have three: "rows_loop [unlinked_row] [(''Bulletin 0'', ''u'')] = Inr [(''Bulletin 0'', ''u'')]"
    using none by simp
  have "rows_loop (linked_row # [unlinked_row]) [(''Bulletin 0'', ''u'')]
          = Inr ([(''Bulletin 0'', ''u'')]
                 @ (get_text_strip (find_all (is_tag ''td'') linked_row ! 0),
                    ''https://drive.google.com/file/d/ABC123/view'')
                   # List.map_filter row_link [unlinked_row])"
    using href_anchor_search[of linked_cell, THEN conjunct2, THEN conjunct2, THEN conjunct2]
      l3 c3 d ia ha p by blast
  then have four: "rows_loop [linked_row, unlinked_row] [(''Bulletin 0'', ''u'')]
       = Inr [(''Bulletin 0'', ''u''),
              (''Bulletin 1'', ''https://drive.google.com/file/d/ABC123/view'')]"
    using nm rest by simp
  show ?thesis using one two three four by (intro conjI)
qed

end
